theory Spec2Isabelle
  imports Main "HOL-Library.Sublist"
begin

section \<open>Socket-type SVG generation (make\_socket\_svgs.py)\<close>

text \<open>
  The script reads the text of \<^verbatim>\<open>sockettype_template.svg\<close> once and then, for every
  item of the dictionary \<^verbatim>\<open>COLORS\<close> in insertion order, opens
  \<^verbatim>\<open>sockettype_<socket_type>.svg\<close> for writing and writes the template text in which
  \<^verbatim>\<open>fill:#cc4c4c;\<close> has been replaced by \<^verbatim>\<open>fill:#<color>;\<close> with Python's
  \<^verbatim>\<open>str.replace\<close>. Both files are opened in text mode by their names in the working
  directory.
\<close>

subsection \<open>The color table\<close>

text \<open>A Python dictionary literal iterates in the order in which its keys are written.\<close>

definition COLORS :: "(string \<times> string) list" where
  "COLORS =
    [(''action'', ''cc4c4c''),
     (''animation'', ''cccccc''),
     (''array'', ''cc6600''),
     (''bool'', ''cca6d6''),
     (''color'', ''c7c729''),
     (''dynamic'', ''63c763''),
     (''float'', ''a1a1a1''),
     (''integer'', ''0f8526''),
     (''object'', ''268cbf''),
     (''string'', ''70b2ff''),
     (''vector'', ''6363c7'')]"

subsection \<open>Python's \<^verbatim>\<open>str.replace\<close>, \<^verbatim>\<open>str.split\<close> and \<^verbatim>\<open>str.join\<close>\<close>

text \<open>
  \<^verbatim>\<open>s.replace(old, new)\<close> with a non-empty \<^verbatim>\<open>old\<close> scans \<^verbatim>\<open>s\<close> from the left; at the
  leftmost position where \<^verbatim>\<open>old\<close> starts it emits \<^verbatim>\<open>new\<close> and goes on behind that
  occurrence, so the occurrences replaced do not overlap.
\<close>

fun replace_scan :: "string \<Rightarrow> string \<Rightarrow> string \<Rightarrow> string" where
  "replace_scan old new [] = []"
| "replace_scan old new (c # cs) =
     (if prefix old (c # cs) then new @ replace_scan old new (drop (length old - 1) cs)
      else c # replace_scan old new cs)"

text \<open>
  With an empty \<^verbatim>\<open>old\<close>, Python puts \<^verbatim>\<open>new\<close> in front of the text and behind every
  character of it.
\<close>

definition replace :: "string \<Rightarrow> string \<Rightarrow> string \<Rightarrow> string" where
  "replace s old new =
     (if old = [] then new @ concat (map (\<lambda>c. c # new) s) else replace_scan old new s)"

text \<open>
  \<^verbatim>\<open>s.split(sep)\<close> for a non-empty \<^verbatim>\<open>sep\<close>: the pieces of \<^verbatim>\<open>s\<close> between the occurrences
  of \<^verbatim>\<open>sep\<close> found by the same scan; \<^verbatim>\<open>sep.join(pieces)\<close> puts them together again.
\<close>

fun split :: "string \<Rightarrow> string \<Rightarrow> string list" where
  "split sep [] = [[]]"
| "split sep (c # cs) =
     (if prefix sep (c # cs) then [] # split sep (drop (length sep - 1) cs)
      else (c # hd (split sep cs)) # tl (split sep cs))"

fun join :: "string \<Rightarrow> string list \<Rightarrow> string" where
  "join sep [] = []"
| "join sep [p] = p"
| "join sep (p # q # ps) = p @ sep @ join sep (q # ps)"

subsection \<open>Text mode\<close>

text \<open>
  Both files are opened in text mode with the default \<^verbatim>\<open>newline=None\<close>. Reading then
  turns every \<^verbatim>\<open>CR LF\<close> and every remaining \<^verbatim>\<open>CR\<close> into \<^verbatim>\<open>LF\<close>; writing turns every
  \<^verbatim>\<open>LF\<close> into \<^verbatim>\<open>os.linesep\<close>, which is \<^verbatim>\<open>LF\<close> on POSIX systems and \<^verbatim>\<open>CR LF\<close> on
  Windows.
\<close>

definition CR :: char where
  "CR = CHR 0x0D"

definition LF :: char where
  "LF = CHR 0x0A"

datatype platform = Posix | Windows

fun linesep :: "platform \<Rightarrow> string" where
  "linesep Posix = [LF]"
| "linesep Windows = [CR, LF]"

fun universal_newlines :: "string \<Rightarrow> string" where
  "universal_newlines [] = []"
| "universal_newlines [c] = (if c = CR then [LF] else [c])"
| "universal_newlines (c # d # cs) =
     (if c = CR \<and> d = LF then LF # universal_newlines cs
      else if c = CR then LF # universal_newlines (d # cs)
      else c # universal_newlines (d # cs))"

definition write_newlines :: "platform \<Rightarrow> string \<Rightarrow> string" where
  "write_newlines pf text = concat (map (\<lambda>c. if c = LF then linesep pf else [c]) text)"

subsection \<open>The files of the working directory\<close>

text \<open>
  A file holds a sequence of characters, line ends as they are stored. A path denotes a
  file: a plain name denotes the file of that name, a symbolic link the file it leads to,
  and the names of one hard-linked file denote the same file; \<open>target fs path\<close> is the
  name under which the file denoted by \<open>path\<close> is kept in \<open>files fs\<close>. So a write
  through one path is seen through every path that denotes the same file. The script
  makes and removes no links.

  Whether a file can be opened for reading or for writing belongs to the environment, as
  does whether the stored characters can be decoded (\<open>decodes fs\<close>, on what is stored)
  and a write that breaks off: \<open>write_fault fs path = Some k\<close> says that writing to
  \<open>path\<close> fails after at most \<open>k\<close> characters have reached the file (a full disk, say).
  \<open>opened_w\<close> records, in order, the paths that were opened in mode \<^verbatim>\<open>"w"\<close>, each of
  which is thereby created or truncated.
\<close>

datatype io_error =
  FileNotFoundError string | PermissionError string | OSError string | UnicodeDecodeError string

record filesystem =
  os :: platform
  target :: "string \<Rightarrow> string"
  files :: "string \<rightharpoonup> string"
  readable :: "string \<Rightarrow> bool"
  decodes :: "string \<Rightarrow> bool"
  writable :: "string \<Rightarrow> bool"
  write_fault :: "string \<Rightarrow> nat option"
  opened_w :: "string list"

text \<open>The stored characters of the file that a path denotes, if there is such a file.\<close>

definition content :: "filesystem \<Rightarrow> string \<Rightarrow> string option" where
  "content fs path = files fs (target fs path)"

text \<open>\<^verbatim>\<open>with open(path, "r") as f: text = f.read()\<close>\<close>

definition read_text :: "filesystem \<Rightarrow> string \<Rightarrow> io_error + string" where
  "read_text fs path =
     (case files fs (target fs path) of
        None \<Rightarrow> Inl (FileNotFoundError path)
      | Some stored \<Rightarrow>
          if \<not> readable fs path then Inl (PermissionError path)
          else if \<not> decodes fs stored then Inl (UnicodeDecodeError path)
          else Inr (universal_newlines stored))"

text \<open>\<^verbatim>\<open>with open(path, "w") as f: f.write(text)\<close>\<close>

definition write_text :: "string \<Rightarrow> string \<Rightarrow> filesystem \<Rightarrow> (io_error + unit) \<times> filesystem" where
  "write_text path text fs =
     (if \<not> writable fs path then (Inl (PermissionError path), fs)
      else case write_fault fs path of
        None \<Rightarrow>
          (Inr (),
           fs\<lparr>files := (files fs)(target fs path \<mapsto> write_newlines (os fs) text),
              opened_w := opened_w fs @ [path]\<rparr>)
      | Some k \<Rightarrow>
          (Inl (OSError path),
           fs\<lparr>files := (files fs)(target fs path \<mapsto> take k (write_newlines (os fs) text)),
              opened_w := opened_w fs @ [path]\<rparr>))"

subsection \<open>The script\<close>

definition template_path :: string where
  "template_path = ''sockettype_template.svg''"

definition marker :: string where
  "marker = ''fill:#cc4c4c;''"

text \<open>The f-strings \<^verbatim>\<open>f"sockettype_{socket_type}.svg"\<close> and \<^verbatim>\<open>f"fill:#{color};"\<close>.\<close>

definition output_path :: "string \<Rightarrow> string" where
  "output_path socket_type = ''sockettype_'' @ socket_type @ ''.svg''"

definition fill :: "string \<Rightarrow> string" where
  "fill color = ''fill:#'' @ color @ '';''"

text \<open>
  The \<^verbatim>\<open>for\<close> loop over \<^verbatim>\<open>COLORS.items()\<close>: an exception raised for one item ends the
  loop, and what was written before stays as it is.
\<close>

fun write_all :: "(string \<times> string) list \<Rightarrow> string \<Rightarrow> filesystem \<Rightarrow> (io_error + unit) \<times> filesystem" where
  "write_all [] template_str fs = (Inr (), fs)"
| "write_all ((socket_type, color) # items) template_str fs =
     (case write_text (output_path socket_type) (replace template_str marker (fill color)) fs of
        (Inl e, fs') \<Rightarrow> (Inl e, fs')
      | (Inr _, fs') \<Rightarrow> write_all items template_str fs')"

definition main :: "filesystem \<Rightarrow> (io_error + unit) \<times> filesystem" where
  "main fs =
     (case read_text fs template_path of
        Inl e \<Rightarrow> (Inl e, fs)
      | Inr template_str \<Rightarrow> write_all COLORS template_str fs)"

text \<open>
  A write to \<open>path\<close> goes through when the file can be opened in mode \<^verbatim>\<open>"w"\<close> and
  nothing breaks the write off.
\<close>

definition write_ok :: "filesystem \<Rightarrow> string \<Rightarrow> bool" where
  "write_ok fs path = (writable fs path \<and> write_fault fs path = None)"

text \<open>The output paths of a list of table items, in the order of the items.\<close>

definition output_paths :: "(string \<times> string) list \<Rightarrow> string list" where
  "output_paths items = map (\<lambda>(socket_type, color). output_path socket_type) items"

text \<open>The output paths that the loop opens after the one of a given entry.\<close>

definition later_paths :: "(string \<times> string) list \<Rightarrow> string \<Rightarrow> string list" where
  "later_paths items socket_type =
     output_paths (tl (dropWhile (\<lambda>(name, color). name \<noteq> socket_type) items))"

subsection \<open>Example directories\<close>

text \<open>
  A POSIX directory without links in which every file can be read, decoded and written
  and no write breaks off, holding the given files.
\<close>

definition plain_dir :: "(string \<rightharpoonup> string) \<Rightarrow> filesystem" where
  "plain_dir fs_files =
     \<lparr>os = Posix,
      target = (\<lambda>path. path),
      files = fs_files,
      readable = (\<lambda>path. True),
      decodes = (\<lambda>stored. True),
      writable = (\<lambda>path. True),
      write_fault = (\<lambda>path. None),
      opened_w = []\<rparr>"

definition template_only :: "string \<Rightarrow> filesystem" where
  "template_only stored = plain_dir [''sockettype_template.svg'' \<mapsto> stored]"

text \<open>A template with one marker, one with none, and one that already shows another color.\<close>

definition example_fs :: filesystem where
  "example_fs = template_only ''<svg><rect fill:#cc4c4c; /></svg>''"

definition plain_fs :: filesystem where
  "plain_fs = template_only ''<svg><rect /></svg>''"

definition two_color_fs :: filesystem where
  "two_color_fs = template_only ''<svg><rect fill:#cc4c4c; /><circle fill:#cccccc; /></svg>''"

text \<open>Templates whose lines end in \<^verbatim>\<open>CR LF\<close>, with a marker and without one.\<close>

definition crlf_template :: string where
  "crlf_template = ''<svg>'' @ [CR, LF] @ ''<rect fill:#cc4c4c; />'' @ [CR, LF] @ ''</svg>''"

definition crlf_plain_template :: string where
  "crlf_plain_template = ''<svg>'' @ [CR, LF] @ ''</svg>''"

definition crlf_fs :: filesystem where
  "crlf_fs = template_only crlf_template"

definition crlf_plain_fs :: filesystem where
  "crlf_plain_fs = template_only crlf_plain_template"

text \<open>A directory without a template, in which an older output file is left over.\<close>

definition no_template_fs :: filesystem where
  "no_template_fs = plain_dir [''sockettype_bool.svg'' \<mapsto> ''old'']"

text \<open>
  A directory that has been used before: it holds older output files and a file of its
  own. In \<open>locked_fs\<close> the file \<^verbatim>\<open>sockettype_bool.svg\<close> cannot be opened for writing;
  in \<open>full_fs\<close> the write to it breaks off after five characters.
\<close>

definition used_fs :: filesystem where
  "used_fs =
     plain_dir [''sockettype_template.svg'' \<mapsto> ''<svg><rect fill:#cc4c4c; /></svg>'',
                ''sockettype_array.svg'' \<mapsto> ''old array'',
                ''sockettype_bool.svg'' \<mapsto> ''old bool'',
                ''sockettype_color.svg'' \<mapsto> ''old color'',
                ''notes.txt'' \<mapsto> ''keep'']"


definition full_fs :: filesystem where
  "full_fs =
     used_fs\<lparr>write_fault := (\<lambda>path. if path = ''sockettype_bool.svg'' then Some 5 else None)\<rparr>"

text \<open>
  The same directory with links. In \<open>hardlink_fs\<close> the paths \<^verbatim>\<open>sockettype_array.svg\<close> and
  \<^verbatim>\<open>sockettype_bool.svg\<close> are two names of one file. In \<open>symlink_fs\<close> the path
  \<^verbatim>\<open>sockettype_color.svg\<close> is a link to \<^verbatim>\<open>notes.txt\<close> and \<^verbatim>\<open>sockettype_vector.svg\<close> a link
  to the template.
\<close>

definition hardlink_fs :: filesystem where
  "hardlink_fs =
     used_fs\<lparr>target := (\<lambda>path.
       if path = ''sockettype_array.svg'' then ''sockettype_bool.svg'' else path)\<rparr>"

definition symlink_fs :: filesystem where
  "symlink_fs =
     used_fs\<lparr>target := (\<lambda>path.
       if path = ''sockettype_color.svg'' then ''notes.txt''
       else if path = ''sockettype_vector.svg'' then ''sockettype_template.svg''
       else path)\<rparr>"

section \<open>Properties of the text substitution\<close>

lemma prefix_Cons_split:
  assumes "old \<noteq> []" and "prefix old (c # cs)"
  shows "c # cs = old @ drop (length old - 1) cs"
proof -
  from assms(2) obtain zs where zs: "c # cs = old @ zs"
    by (auto simp: prefix_def)
  with assms(1) obtain old' where old': "old = c # old'"
    by (cases old) auto
  with zs have "cs = old' @ zs" by simp
  then have "drop (length old - 1) cs = zs"
    using old' by simp
  with zs show ?thesis by simp
qed

lemma replace_scan_old_append:
  assumes "old \<noteq> []"
  shows "replace_scan old new (old @ rest) = new @ replace_scan old new rest"
proof -
  from assms obtain c old' where old: "old = c # old'"
    by (cases old) auto
  have "prefix old (c # (old' @ rest))"
    by (simp add: old)
  then have "replace_scan old new (c # (old' @ rest)) =
      new @ replace_scan old new (drop (length old - 1) (old' @ rest))"
    by simp
  then show ?thesis
    by (simp add: old)
qed

lemma length_replace_scan:
  assumes "old \<noteq> []" and "length new = length old"
  shows "length (replace_scan old new s) = length s"
  using assms
proof (induction old new s rule: replace_scan.induct)
  case (1 old new)
  then show ?case by simp
next
  case (2 old new c cs)
  show ?case
  proof (cases "prefix old (c # cs)")
    case True
    from prefix_Cons_split [OF "2.prems"(1) True]
    have len: "length (c # cs) = length old + length (drop (length old - 1) cs)"
      by (metis length_append)
    from True have "replace_scan old new (c # cs) =
        new @ replace_scan old new (drop (length old - 1) cs)"
      by simp
    then have "length (replace_scan old new (c # cs)) =
        length new + length (replace_scan old new (drop (length old - 1) cs))"
      by simp
    also have "\<dots> = length old + length (drop (length old - 1) cs)"
      using "2.IH"(1) [OF True "2.prems"] "2.prems"(2) by simp
    finally show ?thesis
      by (simp only: len)
  next
    case False
    with 2 show ?thesis by simp
  qed
qed

lemma length_replace:
  assumes "length new = length old"
  shows "length (replace s old new) = length s"
proof (cases "old = []")
  case True
  with assms have "new = []" by simp
  have "concat (map (\<lambda>c. [c]) s) = s"
    by (induction s) auto
  with True \<open>new = []\<close> show ?thesis
    by (simp add: replace_def)
next
  case False
  with assms show ?thesis
    by (simp add: replace_def length_replace_scan)
qed

lemma replace_scan_same_aux:
  assumes "old \<noteq> []" and "new = old"
  shows "replace_scan old new s = s"
  using assms
proof (induction old new s rule: replace_scan.induct)
  case (1 old new)
  then show ?case by simp
next
  case (2 old new c cs)
  show ?case
  proof (cases "prefix old (c # cs)")
    case True
    from True have "replace_scan old new (c # cs) =
        new @ replace_scan old new (drop (length old - 1) cs)"
      by simp
    also have "\<dots> = old @ drop (length old - 1) cs"
      using 2 True by simp
    also have "\<dots> = c # cs"
      using prefix_Cons_split [OF "2.prems"(1) True] by simp
    finally show ?thesis .
  next
    case False
    with 2 show ?thesis by simp
  qed
qed

lemma replace_scan_same: "old \<noteq> [] \<Longrightarrow> replace_scan old old s = s"
  by (rule replace_scan_same_aux) simp_all

lemma replace_same: "replace s old old = s"
proof (cases "old = []")
  case True
  have "concat (map (\<lambda>c. [c]) s) = s"
    by (induction s) auto
  with True show ?thesis
    by (simp add: replace_def)
next
  case False
  then show ?thesis
    by (simp add: replace_def replace_scan_same)
qed

lemma replace_scan_absent:
  assumes "\<not> sublist old s"
  shows "replace_scan old new s = s"
  using assms
proof (induction s)
  case Nil
  then show ?case by simp
next
  case (Cons c cs)
  from Cons.prems have "\<not> prefix old (c # cs)" and "\<not> sublist old cs"
    by (simp_all add: sublist_Cons_right)
  with Cons.IH show ?case by simp
qed

lemma split_not_Nil: "split sep s \<noteq> []"
  by (cases s) simp_all

lemma join_Cons: "ps \<noteq> [] \<Longrightarrow> join sep (p # ps) = p @ sep @ join sep ps"
  by (cases ps) simp_all

lemma join_Cons_hd: "ps \<noteq> [] \<Longrightarrow> join sep ((c # hd ps) # tl ps) = c # join sep ps"
proof -
  assume "ps \<noteq> []"
  then obtain q qs where ps: "ps = q # qs"
    by (cases ps) auto
  show ?thesis
    by (cases qs) (simp_all add: ps)
qed

lemma join_split_replace_scan: "join new (split old s) = replace_scan old new s"
proof (induction old s rule: split.induct)
  case (1 sep)
  show ?case by simp
next
  case (2 sep c cs)
  show ?case
  proof (cases "prefix sep (c # cs)")
    case True
    then have "join new (split sep (c # cs)) =
        join new ([] # split sep (drop (length sep - 1) cs))"
      by simp
    also have "\<dots> = new @ join new (split sep (drop (length sep - 1) cs))"
      by (simp add: join_Cons split_not_Nil)
    also have "\<dots> = new @ replace_scan sep new (drop (length sep - 1) cs)"
      using "2.IH"(1) [OF True] by simp
    also have "\<dots> = replace_scan sep new (c # cs)"
      using True by simp
    finally show ?thesis .
  next
    case False
    then have "join new (split sep (c # cs)) =
        join new ((c # hd (split sep cs)) # tl (split sep cs))"
      by simp
    also have "\<dots> = c # join new (split sep cs)"
      by (simp add: join_Cons_hd split_not_Nil)
    also have "\<dots> = c # replace_scan sep new cs"
      using "2.IH"(2) [OF False] by simp
    also have "\<dots> = replace_scan sep new (c # cs)"
      using False by simp
    finally show ?thesis .
  qed
qed

lemma join_split:
  assumes "sep \<noteq> []"
  shows "join sep (split sep s) = s"
  using join_split_replace_scan [of sep sep s] replace_scan_same [OF assms, of s]
  by simp

lemma hd_split_prefix: "prefix (hd (split sep s)) s"
proof (induction sep s rule: split.induct)
  case (1 sep)
  show ?case by simp
next
  case (2 sep c cs)
  show ?case
  proof (cases "prefix sep (c # cs)")
    case True
    then show ?thesis by simp
  next
    case False
    with "2.IH"(2) show ?thesis by simp
  qed
qed

lemma split_pieces_free:
  "sep \<noteq> [] \<Longrightarrow> p \<in> set (split sep s) \<Longrightarrow> \<not> sublist sep p"
proof (induction sep s arbitrary: p rule: split.induct)
  case (1 sep)
  then show ?case by simp
next
  case (2 sep c cs)
  show ?case
  proof (cases "prefix sep (c # cs)")
    case True
    with "2.prems"(2) have "p = [] \<or> p \<in> set (split sep (drop (length sep - 1) cs))"
      by simp
    then show ?thesis
    proof
      assume "p = []"
      with "2.prems"(1) show ?thesis by simp
    next
      assume "p \<in> set (split sep (drop (length sep - 1) cs))"
      then show ?thesis by (rule "2.IH"(1) [OF True "2.prems"(1)])
    qed
  next
    case False
    let ?r = "split sep cs"
    have r: "?r \<noteq> []" by (rule split_not_Nil)
    from False "2.prems"(2) have "p = c # hd ?r \<or> p \<in> set (tl ?r)"
      by simp
    then show ?thesis
    proof
      assume p: "p = c # hd ?r"
      have "\<not> sublist sep (hd ?r)"
        using r by (intro "2.IH"(2) [OF False "2.prems"(1)]) simp
      moreover have "\<not> prefix sep (c # hd ?r)"
      proof
        assume "prefix sep (c # hd ?r)"
        moreover have "prefix (c # hd ?r) (c # cs)"
          using hd_split_prefix [of sep cs] by simp
        ultimately have "prefix sep (c # cs)"
          by (rule prefix_order.trans)
        with False show False by simp
      qed
      ultimately show ?thesis
        by (simp add: p sublist_Cons_right)
    next
      assume "p \<in> set (tl ?r)"
      then have "p \<in> set ?r"
        using r by (auto dest: list.set_sel(2))
      then show ?thesis by (rule "2.IH"(2) [OF False "2.prems"(1)])
    qed
  qed
qed

lemma replace_scan_prefix_cases:
  assumes "length w \<le> length new" and "prefix w (replace_scan old new t)"
  shows "prefix w t \<or> (\<exists>a b. w = a @ b \<and> b \<noteq> [] \<and> prefix b new \<and> prefix (a @ old) t)"
  using assms
proof (induction old new t arbitrary: w rule: replace_scan.induct)
  case (1 old new)
  then show ?case by simp
next
  case (2 old new c cs)
  show ?case
  proof (cases "prefix old (c # cs)")
    case True
    with "2.prems"(2) have "prefix w (new @ replace_scan old new (drop (length old - 1) cs))"
      by simp
    then have "prefix w new"
      using "2.prems"(1) by (auto simp: prefix_append)
    show ?thesis
    proof (cases "w = []")
      case True
      then show ?thesis by simp
    next
      case False
      with \<open>prefix w new\<close> \<open>prefix old (c # cs)\<close>
      have "w = [] @ w \<and> w \<noteq> [] \<and> prefix w new \<and> prefix ([] @ old) (c # cs)"
        by simp
      then show ?thesis by blast
    qed
  next
    case False
    show ?thesis
    proof (cases w)
      case Nil
      then show ?thesis by simp
    next
      case (Cons c' w')
      with False "2.prems" have c': "c' = c" and w': "prefix w' (replace_scan old new cs)"
        and len: "length w' \<le> length new"
        by simp_all
      from "2.IH"(2) [OF False len w']
      show ?thesis
      proof
        assume "prefix w' cs"
        then show ?thesis by (simp add: Cons c')
      next
        assume "\<exists>a b. w' = a @ b \<and> b \<noteq> [] \<and> prefix b new \<and> prefix (a @ old) cs"
        then obtain a b where "w' = a @ b" "b \<noteq> []" "prefix b new" "prefix (a @ old) cs"
          by blast
        then have "w = (c # a) @ b \<and> b \<noteq> [] \<and> prefix b new \<and> prefix ((c # a) @ old) (c # cs)"
          by (simp add: Cons c')
        then show ?thesis by blast
      qed
    qed
  qed
qed

lemma replace_scan_new_prefix:
  assumes border: "\<And>b. b \<noteq> [] \<Longrightarrow> prefix b new \<Longrightarrow> suffix b new \<Longrightarrow> b = new"
    and out: "prefix new (replace_scan old new t)"
    and inp: "\<not> prefix new t"
  shows "prefix old t"
proof -
  from replace_scan_prefix_cases [OF le_refl out] inp
  obtain a b where ab: "new = a @ b" "b \<noteq> []" "prefix b new" "prefix (a @ old) t"
    by blast
  from ab(1) have "suffix b new"
    by (simp add: suffix_def)
  with border ab(2,3) have "b = new" by blast
  with ab(1) have "a = []" by simp
  with ab(4) show ?thesis by simp
qed

lemma replace_scan_roundtrip:
  assumes "old \<noteq> []" and "new \<noteq> []"
    and "\<And>b. b \<noteq> [] \<Longrightarrow> prefix b new \<Longrightarrow> suffix b new \<Longrightarrow> b = new"
    and "\<not> sublist new t"
  shows "replace_scan new old (replace_scan old new t) = t"
  using assms
proof (induction old new t rule: replace_scan.induct)
  case (1 old new)
  then show ?case by simp
next
  case (2 old new c cs)
  show ?case
  proof (cases "prefix old (c # cs)")
    case True
    let ?rest = "drop (length old - 1) cs"
    have t: "c # cs = old @ ?rest"
      by (rule prefix_Cons_split [OF "2.prems"(1) True])
    have "\<not> sublist new ?rest"
    proof
      assume "sublist new ?rest"
      then have "sublist new (old @ ?rest)"
        by (auto simp: sublist_append)
      with t "2.prems"(4) show False by simp
    qed
    then have IH: "replace_scan new old (replace_scan old new ?rest) = ?rest"
      using "2.IH"(1) [OF True "2.prems"(1,2,3)] by blast
    from True have "replace_scan new old (replace_scan old new (c # cs)) =
        replace_scan new old (new @ replace_scan old new ?rest)"
      by simp
    also have "\<dots> = old @ replace_scan new old (replace_scan old new ?rest)"
      by (rule replace_scan_old_append [OF "2.prems"(2)])
    also have "\<dots> = old @ ?rest"
      by (simp only: IH)
    also have "\<dots> = c # cs"
      by (rule t [symmetric])
    finally show ?thesis .
  next
    case False
    from "2.prems"(4) have np: "\<not> prefix new (c # cs)" and ns: "\<not> sublist new cs"
      by (simp_all add: sublist_Cons_right)
    have IH: "replace_scan new old (replace_scan old new cs) = cs"
      using "2.IH"(2) [OF False "2.prems"(1,2,3) ns] by blast
    have "\<not> prefix new (replace_scan old new (c # cs))"
    proof
      assume "prefix new (replace_scan old new (c # cs))"
      then have "prefix old (c # cs)"
        using np "2.prems"(3) by (intro replace_scan_new_prefix [of new old "c # cs"]) blast+
      with False show False by simp
    qed
    with False have "\<not> prefix new (c # replace_scan old new cs)"
      by simp
    then have "replace_scan new old (c # replace_scan old new cs) =
        c # replace_scan new old (replace_scan old new cs)"
      by simp
    with False IH show ?thesis by simp
  qed
qed

lemma sublist_same_length:
  assumes "sublist xs ys" and "length xs = length ys"
  shows "xs = ys"
proof -
  from assms(1) obtain ps ss where "ys = ps @ xs @ ss"
    by (auto simp: sublist_def)
  with assms(2) show ?thesis by simp
qed

lemma replace_scan_none_left:
  assumes "old \<noteq> []" and "length new = length old"
    and "\<And>x. x \<noteq> [] \<Longrightarrow> suffix x new \<Longrightarrow> prefix x old \<Longrightarrow> False"
    and "\<And>b. b \<noteq> [] \<Longrightarrow> suffix b old \<Longrightarrow> prefix b new \<Longrightarrow> False"
  shows "\<not> sublist old (replace_scan old new t)"
  using assms
proof (induction old new t rule: replace_scan.induct)
  case (1 old new)
  then show ?case by simp
next
  case (2 old new c cs)
  show ?case
  proof (cases "prefix old (c # cs)")
    case True
    let ?out = "replace_scan old new (drop (length old - 1) cs)"
    have IH: "\<not> sublist old ?out"
      using "2.IH"(1) [OF True "2.prems"(1,2)] "2.prems"(3,4) by blast
    have "\<not> sublist old (new @ ?out)"
    proof
      assume "sublist old (new @ ?out)"
      then consider "sublist old new" | "sublist old ?out"
        | x y where "old = x @ y" "suffix x new" "prefix y ?out"
        by (auto simp: sublist_append)
      then show False
      proof cases
        case 1
        then have "old = new"
          using "2.prems"(2) by (intro sublist_same_length) simp_all
        with "2.prems"(1) "2.prems"(3) [of old] show False by simp
      next
        case 2
        with IH show False by simp
      next
        case 3
        show False
        proof (cases "x = []")
          case True
          with 3 have "prefix old ?out" by simp
          then have "sublist old ?out" by (rule prefix_imp_sublist)
          with IH show False by simp
        next
          case False
          moreover from 3(1) have "prefix x old" by simp
          ultimately show False
            using 3(2) "2.prems"(3) [of x] by simp
        qed
      qed
    qed
    with True show ?thesis by simp
  next
    case False
    have IH: "\<not> sublist old (replace_scan old new cs)"
      using "2.IH"(2) [OF False "2.prems"(1,2)] "2.prems"(3,4) by blast
    have "\<not> prefix old (replace_scan old new (c # cs))"
    proof
      assume out: "prefix old (replace_scan old new (c # cs))"
      have "length old \<le> length new"
        using "2.prems"(2) by simp
      from replace_scan_prefix_cases [OF this out] False
      obtain a b where ab: "old = a @ b" "b \<noteq> []" "prefix b new"
        by blast
      from ab(1) have "suffix b old"
        by (simp add: suffix_def)
      with ab(2,3) "2.prems"(4) [of b] show False by simp
    qed
    with False have "\<not> prefix old (c # replace_scan old new cs)"
      by simp
    with IH False show ?thesis
      by (simp add: sublist_Cons_right)
  qed
qed

section \<open>Facts about the table and the file names\<close>

lemma output_path_inject: "output_path a = output_path b \<longleftrightarrow> a = b"
  by (simp add: output_path_def)

lemma output_path_template: "output_path n = template_path \<longleftrightarrow> n = ''template''"
  by (simp add: output_path_def template_path_def)

lemma output_paths_mem:
  "path \<in> set (output_paths items) \<longleftrightarrow> (\<exists>n c. (n, c) \<in> set items \<and> path = output_path n)"
  by (auto simp: output_paths_def)

lemma COLORS_names_distinct: "distinct (map fst COLORS)"
  by (simp add: COLORS_def)

lemma COLORS_no_template: "(n, c) \<in> set COLORS \<Longrightarrow> n \<noteq> ''template''"
  by (auto simp: COLORS_def)

lemma COLORS_color_length: "(n, c) \<in> set COLORS \<Longrightarrow> length c = 6"
  by (auto simp: COLORS_def)

lemma COLORS_color_chars: "(n, c) \<in> set COLORS \<Longrightarrow> CHR '';'' \<notin> set c"
  by (auto simp: COLORS_def)

lemma output_paths_distinct: "distinct (output_paths COLORS)"
proof -
  have "inj_on output_path (set (map fst COLORS))"
    by (simp add: inj_on_def output_path_inject)
  then have "distinct (map output_path (map fst COLORS))"
    using COLORS_names_distinct by (simp only: distinct_map)
  moreover have "map output_path (map fst COLORS) = output_paths COLORS"
    by (simp add: output_paths_def case_prod_beta comp_def)
  ultimately show ?thesis by simp
qed

lemma template_not_output: "template_path \<notin> set (output_paths COLORS)"
proof
  assume "template_path \<in> set (output_paths COLORS)"
  then obtain n c where "(n, c) \<in> set COLORS" "output_path n = template_path"
    by (auto simp: output_paths_def)
  then show False
    using COLORS_no_template [of n c] by (simp add: output_path_template)
qed

lemma marker_fill: "marker = fill ''cc4c4c''"
  by (simp add: marker_def fill_def)

lemma marker_not_Nil: "marker \<noteq> []"
  by (simp add: marker_def)

lemma fill_not_Nil: "fill c \<noteq> []"
  by (simp add: fill_def)

lemma length_fill: "length (fill c) = length c + 7"
  by (simp add: fill_def)

lemma length_marker: "length marker = 13"
  by (simp add: marker_def)

lemma fill_unbordered:
  assumes "CHR '';'' \<notin> set c" and "b \<noteq> []" and "prefix b (fill c)" and "suffix b (fill c)"
  shows "b = fill c"
proof (rule ccontr)
  assume neq: "b \<noteq> fill c"
  from assms(3) obtain z where z: "fill c = b @ z"
    by (auto simp: prefix_def)
  with neq have "z \<noteq> []" by auto
  then have "butlast (fill c) = b @ butlast z"
    using z by (simp add: butlast_append)
  moreover have "butlast (fill c) = ''fill:#'' @ c"
    by (simp add: fill_def butlast_append)
  ultimately have "set b \<subseteq> set (''fill:#'' @ c)"
    by (metis set_append Un_upper1)
  moreover have "last b = CHR '';''"
  proof -
    from assms(4) obtain y where "fill c = y @ b"
      by (auto simp: suffix_def)
    with assms(2) have "last (fill c) = last b"
      by simp
    moreover have "last (fill c) = CHR '';''"
      by (simp add: fill_def)
    ultimately show ?thesis by simp
  qed
  ultimately have "CHR '';'' \<in> set (''fill:#'' @ c)"
    using assms(2) last_in_set by fastforce
  with assms(1) show False by simp
qed

lemma marker_fill_overlap:
  assumes "length c = 6" and "c \<noteq> ''cc4c4c''" and "x \<noteq> []"
    and "suffix x (fill c)" and "prefix x marker"
  shows False
proof -
  from assms(4) obtain y where y: "fill c = y @ x"
    by (auto simp: suffix_def)
  with assms(3) have "last (fill c) = last x"
    by simp
  moreover have "last (fill c) = CHR '';''"
    by (simp add: fill_def)
  ultimately have last: "last x = CHR '';''"
    by simp
  from assms(5) obtain z where z: "marker = x @ z"
    by (auto simp: prefix_def)
  show False
  proof (cases "z = []")
    case True
    with z have "x = marker" by simp
    with y have "length (fill c) = length y + length marker" by simp
    with assms(1) have "y = []"
      by (simp add: length_fill length_marker)
    with y \<open>x = marker\<close> have "fill c = fill ''cc4c4c''"
      by (simp add: marker_fill)
    with assms(2) show False
      by (simp add: fill_def)
  next
    case False
    then have "butlast (x @ z) = x @ butlast z"
      by (simp add: butlast_append)
    then have "butlast marker = x @ butlast z"
      by (simp only: z)
    then have "set x \<subseteq> set (butlast marker)"
      by simp
    with assms(3) last have "CHR '';'' \<in> set (butlast marker)"
      using last_in_set [of x] by auto
    then show False
      by (simp add: marker_def)
  qed
qed

lemma fill_marker_overlap:
  assumes "length c = 6" and "c \<noteq> ''cc4c4c''" and "b \<noteq> []"
    and "suffix b marker" and "prefix b (fill c)"
  shows False
proof -
  from assms(3,5) have hd: "hd b = CHR ''f''"
    by (cases b) (simp_all add: fill_def)
  from assms(4) obtain y where y: "marker = y @ b"
    by (auto simp: suffix_def)
  show False
  proof (cases "y = []")
    case True
    with y have "b = marker" by simp
    with assms(5) obtain z where "fill c = marker @ z"
      by (auto simp: prefix_def)
    then have "length (fill c) = length marker + length z"
      by simp
    with assms(1) have "z = []"
      by (simp add: length_fill length_marker)
    with \<open>fill c = marker @ z\<close> have "fill c = fill ''cc4c4c''"
      by (simp add: marker_fill)
    with assms(2) show False
      by (simp add: fill_def)
  next
    case False
    then have "tl (y @ b) = tl y @ b"
      by simp
    then have "tl marker = tl y @ b"
      by (simp only: y)
    then have "set b \<subseteq> set (tl marker)"
      by simp
    with assms(3) hd have "CHR ''f'' \<in> set (tl marker)"
      using hd_in_set [of b] by auto
    then show False
      by (simp add: marker_def)
  qed
qed

lemma replace_marker:
  "replace t marker new = replace_scan marker new t"
  by (simp add: replace_def marker_not_Nil)

lemma replace_marker_pieces:
  "join marker (split marker t) = t \<and>
   (\<forall>p \<in> set (split marker t). \<not> sublist marker p) \<and>
   replace t marker new = join new (split marker t)"
  using join_split [OF marker_not_Nil] split_pieces_free [OF marker_not_Nil]
  by (simp add: replace_marker join_split_replace_scan)

lemma length_replace_fill:
  "(n, c) \<in> set COLORS \<Longrightarrow> length (replace t marker (fill c)) = length t"
  by (rule length_replace) (simp add: length_fill length_marker COLORS_color_length)

lemma replace_fill_roundtrip:
  assumes "(n, c) \<in> set COLORS" and "c = ''cc4c4c'' \<or> \<not> sublist (fill c) t"
  shows "replace (replace t marker (fill c)) (fill c) marker = t"
proof (cases "c = ''cc4c4c''")
  case True
  then have "fill c = marker"
    by (simp add: marker_fill)
  then show ?thesis
    by (simp add: replace_same)
next
  case False
  with assms(2) have absent: "\<not> sublist (fill c) t"
    by simp
  have border: "b = fill c" if "b \<noteq> []" "prefix b (fill c)" "suffix b (fill c)" for b
    using COLORS_color_chars [OF assms(1)] that by (rule fill_unbordered)
  have "replace_scan (fill c) marker (replace_scan marker (fill c) t) = t"
    using marker_not_Nil fill_not_Nil border absent by (rule replace_scan_roundtrip)
  then show ?thesis
    by (simp add: replace_def marker_not_Nil fill_not_Nil)
qed

lemma replace_fill_none_left:
  assumes "(n, c) \<in> set COLORS" and "c \<noteq> ''cc4c4c''"
  shows "\<not> sublist marker (replace t marker (fill c))"
proof -
  have len: "length c = 6"
    using assms(1) by (rule COLORS_color_length)
  then have "length (fill c) = length marker"
    by (simp add: length_fill length_marker)
  with marker_not_Nil have "\<not> sublist marker (replace_scan marker (fill c) t)"
  proof (rule replace_scan_none_left)
    fix x :: string
    assume "x \<noteq> []" "suffix x (fill c)" "prefix x marker"
    with len assms(2) show False by (rule marker_fill_overlap)
  next
    fix b :: string
    assume "b \<noteq> []" "suffix b marker" "prefix b (fill c)"
    with len assms(2) show False by (rule fill_marker_overlap)
  qed
  then show ?thesis
    by (simp add: replace_marker)
qed

section \<open>Properties of text mode\<close>

lemma universal_newlines_Cons:
  "c \<noteq> CR \<Longrightarrow> universal_newlines (c # cs) = c # universal_newlines cs"
  by (cases cs) simp_all

lemma universal_newlines_no_CR: "CR \<notin> set (universal_newlines s)"
  by (induction s rule: universal_newlines.induct) (simp_all add: CR_def LF_def)

lemma universal_newlines_id: "CR \<notin> set s \<Longrightarrow> universal_newlines s = s"
  by (induction s) (auto simp: universal_newlines_Cons)

lemma write_newlines_Posix: "write_newlines Posix s = s"
  by (induction s) (simp_all add: write_newlines_def)

lemma write_newlines_Cons:
  "write_newlines pf (c # cs) = (if c = LF then linesep pf else [c]) @ write_newlines pf cs"
  by (simp add: write_newlines_def)

lemma universal_newlines_write:
  assumes "CR \<notin> set s"
  shows "universal_newlines (write_newlines pf s) = s"
proof (cases pf)
  case Posix
  with assms show ?thesis
    by (simp add: write_newlines_Posix universal_newlines_id)
next
  case Windows
  from assms show ?thesis
  proof (induction s)
    case Nil
    show ?case by (simp add: write_newlines_def)
  next
    case (Cons c cs)
    then have IH: "universal_newlines (write_newlines pf cs) = cs" and c: "c \<noteq> CR"
      by auto
    show ?case
    proof (cases "c = LF")
      case True
      then show ?thesis
        by (simp add: write_newlines_Cons Windows IH [unfolded Windows])
    next
      case False
      with c show ?thesis
        by (simp add: write_newlines_Cons universal_newlines_Cons IH)
    qed
  qed
qed

lemma set_replace_scan: "set (replace_scan old new t) \<subseteq> set t \<union> set new"
proof (induction old new t rule: replace_scan.induct)
  case (1 old new)
  show ?case by simp
next
  case (2 old new c cs)
  show ?case
  proof (cases "prefix old (c # cs)")
    case True
    have "set (drop (length old - 1) cs) \<subseteq> set cs"
      by (rule set_drop_subset)
    with "2.IH"(1) [OF True] True show ?thesis
      by auto
  next
    case False
    with "2.IH"(2) [OF False] show ?thesis
      by auto
  qed
qed

lemma CR_not_in_marker: "CR \<notin> set marker"
  by (simp add: marker_def CR_def)

lemma CR_not_in_fill: "(n, c) \<in> set COLORS \<Longrightarrow> CR \<notin> set (fill c)"
  by (auto simp: COLORS_def fill_def CR_def)

lemma replace_fill_no_CR:
  assumes "(n, c) \<in> set COLORS" and "CR \<notin> set t"
  shows "CR \<notin> set (replace t marker (fill c))"
  using set_replace_scan [of marker "fill c" t] CR_not_in_fill [OF assms(1)] assms(2)
  by (auto simp: replace_marker)

lemma read_back_output:
  assumes "(n, c) \<in> set COLORS"
  shows "universal_newlines
      (write_newlines pf (replace (universal_newlines stored) marker (fill c))) =
    replace (universal_newlines stored) marker (fill c)"
  using assms universal_newlines_no_CR
  by (intro universal_newlines_write replace_fill_no_CR)

section \<open>Properties of the writes\<close>

lemma write_text_ok:
  "write_ok fs path \<Longrightarrow>
    write_text path s fs =
      (Inr (),
       fs\<lparr>files := (files fs)(target fs path \<mapsto> write_newlines (os fs) s),
          opened_w := opened_w fs @ [path]\<rparr>)"
  by (simp add: write_ok_def write_text_def)

lemma write_text_fails:
  "\<not> write_ok fs path \<Longrightarrow> \<exists>e. fst (write_text path s fs) = Inl e"
  by (auto simp: write_ok_def write_text_def)


lemma write_text_env:
  "os (snd (write_text path s fs)) = os fs \<and>
   target (snd (write_text path s fs)) = target fs \<and>
   readable (snd (write_text path s fs)) = readable fs \<and>
   decodes (snd (write_text path s fs)) = decodes fs \<and>
   writable (snd (write_text path s fs)) = writable fs \<and>
   write_fault (snd (write_text path s fs)) = write_fault fs"
  by (simp add: write_text_def split: option.split)

lemma write_text_files_other:
  "k \<noteq> target fs path \<Longrightarrow> files (snd (write_text path s fs)) k = files fs k"
  by (simp add: write_text_def split: option.split)


lemma write_all_Cons_ok:
  assumes "write_ok fs (output_path n)"
  shows "write_all ((n, c) # items) t fs =
    write_all items t
      (fs\<lparr>files := (files fs)(target fs (output_path n) \<mapsto>
              write_newlines (os fs) (replace t marker (fill c))),
          opened_w := opened_w fs @ [output_path n]\<rparr>)"
  by (simp add: write_text_ok [OF assms])

lemma write_all_Cons_fails:
  assumes "\<not> write_ok fs (output_path n)"
  shows "write_all ((n, c) # items) t fs =
    write_text (output_path n) (replace t marker (fill c)) fs"
proof -
  from write_text_fails [OF assms]
  obtain e where "fst (write_text (output_path n) (replace t marker (fill c)) fs) = Inl e"
    by blast
  then show ?thesis
    by (cases "write_text (output_path n) (replace t marker (fill c)) fs") simp
qed

lemma write_ok_update:
  "write_ok (fs\<lparr>files := f, opened_w := l\<rparr>) p = write_ok fs p"
  by (simp add: write_ok_def)

lemma write_all_env:
  "os (snd (write_all items t fs)) = os fs \<and>
   target (snd (write_all items t fs)) = target fs \<and>
   readable (snd (write_all items t fs)) = readable fs \<and>
   decodes (snd (write_all items t fs)) = decodes fs \<and>
   writable (snd (write_all items t fs)) = writable fs \<and>
   write_fault (snd (write_all items t fs)) = write_fault fs"
proof (induction items arbitrary: fs)
  case Nil
  show ?case by simp
next
  case (Cons item items)
  obtain n c where item: "item = (n, c)" by (cases item)
  show ?case
  proof (cases "write_ok fs (output_path n)")
    case True
    show ?thesis
      unfolding item write_all_Cons_ok [OF True] using Cons.IH by simp
  next
    case False
    show ?thesis
      unfolding item write_all_Cons_fails [OF False] by (rule write_text_env)
  qed
qed


lemma write_all_files_other:
  "k \<notin> target fs ` set (output_paths items) \<Longrightarrow>
    files (snd (write_all items t fs)) k = files fs k"
proof (induction items arbitrary: fs)
  case Nil
  show ?case by simp
next
  case (Cons item items)
  obtain n c where item: "item = (n, c)" by (cases item)
  from Cons.prems have k: "k \<noteq> target fs (output_path n)"
    and rest: "k \<notin> target fs ` set (output_paths items)"
    by (simp_all add: item output_paths_def)
  show ?case
  proof (cases "write_ok fs (output_path n)")
    case True
    show ?thesis
      unfolding item write_all_Cons_ok [OF True] using Cons.IH [of _] rest k by simp
  next
    case False
    show ?thesis
      unfolding item write_all_Cons_fails [OF False] using k by (rule write_text_files_other)
  qed
qed

lemma write_all_succeeds_iff:
  "fst (write_all items t fs) = Inr () \<longleftrightarrow> (\<forall>p \<in> set (output_paths items). write_ok fs p)"
proof (induction items arbitrary: fs)
  case Nil
  show ?case by (simp add: output_paths_def)
next
  case (Cons item items)
  obtain n c where item: "item = (n, c)" by (cases item)
  show ?case
  proof (cases "write_ok fs (output_path n)")
    case True
    show ?thesis
      unfolding item write_all_Cons_ok [OF True] using True
      by (simp add: Cons.IH write_ok_update output_paths_def)
  next
    case False
    from write_text_fails [OF False]
    obtain e where "fst (write_text (output_path n) (replace t marker (fill c)) fs) = Inl e"
      by blast
    then show ?thesis
      unfolding item write_all_Cons_fails [OF False] using False
      by (simp add: output_paths_def)
  qed
qed

lemma write_all_opened:
  "fst (write_all items t fs) = Inr () \<Longrightarrow>
    opened_w (snd (write_all items t fs)) = opened_w fs @ output_paths items"
proof (induction items arbitrary: fs)
  case Nil
  show ?case by (simp add: output_paths_def)
next
  case (Cons item items)
  obtain n c where item: "item = (n, c)" by (cases item)
  from Cons.prems have "\<forall>p \<in> set (output_paths (item # items)). write_ok fs p"
    by (simp only: write_all_succeeds_iff)
  then have ok: "write_ok fs (output_path n)"
    by (simp add: item output_paths_def)
  from Cons.prems Cons.IH show ?case
    unfolding item write_all_Cons_ok [OF ok]
    by (simp add: output_paths_def)
qed

lemma output_paths_Cons:
  "output_paths ((n, c) # items) = output_path n # output_paths items"
  by (simp add: output_paths_def)

lemma write_all_Cons_files:
  assumes "fst (write_all ((n, c) # items) t fs) = Inr ()"
  obtains fs1 where "write_all ((n, c) # items) t fs = write_all items t fs1"
    and "fst (write_all items t fs1) = Inr ()"
    and "files fs1 (target fs (output_path n)) =
      Some (write_newlines (os fs) (replace t marker (fill c)))"
    and "target fs1 = target fs" and "os fs1 = os fs"
proof -
  from assms have "\<forall>p \<in> set (output_paths ((n, c) # items)). write_ok fs p"
    by (simp only: write_all_succeeds_iff)
  then have ok: "write_ok fs (output_path n)"
    by (simp add: output_paths_def)
  let ?fs1 = "fs\<lparr>files := (files fs)(target fs (output_path n) \<mapsto>
              write_newlines (os fs) (replace t marker (fill c))),
          opened_w := opened_w fs @ [output_path n]\<rparr>"
  have step: "write_all ((n, c) # items) t fs = write_all items t ?fs1"
    by (rule write_all_Cons_ok [OF ok])
  moreover from assms have "fst (write_all items t ?fs1) = Inr ()"
    by (simp only: step)
  moreover have "files ?fs1 (target fs (output_path n)) =
      Some (write_newlines (os fs) (replace t marker (fill c)))"
    by simp
  moreover have "target ?fs1 = target fs" and "os ?fs1 = os fs"
    by simp_all
  ultimately show ?thesis
    by (rule that)
qed

lemma write_all_written:
  "fst (write_all items t fs) = Inr () \<Longrightarrow>
    distinct (map (target fs) (output_paths items)) \<Longrightarrow> (n, c) \<in> set items \<Longrightarrow>
    files (snd (write_all items t fs)) (target fs (output_path n)) =
      Some (write_newlines (os fs) (replace t marker (fill c)))"
proof (induction items arbitrary: fs)
  case Nil
  then show ?case by simp
next
  case (Cons item items)
  obtain n' c' where item: "item = (n', c')" by (cases item)
  from Cons.prems(1) obtain fs1
    where step: "write_all ((n', c') # items) t fs = write_all items t fs1"
      and succ: "fst (write_all items t fs1) = Inr ()"
      and new: "files fs1 (target fs (output_path n')) =
        Some (write_newlines (os fs) (replace t marker (fill c')))"
      and env: "target fs1 = target fs" "os fs1 = os fs"
    unfolding item by (rule write_all_Cons_files)
  from Cons.prems(2)
  have fresh: "target fs (output_path n') \<notin> target fs ` set (output_paths items)"
    and dist: "distinct (map (target fs) (output_paths items))"
    by (simp_all add: item output_paths_Cons)
  show ?case
  proof (cases "(n, c) \<in> set items")
    case True
    from dist have "distinct (map (target fs1) (output_paths items))"
      by (simp add: env)
    from Cons.IH [OF succ this True] show ?thesis
      unfolding item step by (simp add: env)
  next
    case False
    with Cons.prems(3) have eq: "n = n'" "c = c'"
      by (simp_all add: item)
    from fresh have "files (snd (write_all items t fs1)) (target fs (output_path n')) =
        files fs1 (target fs (output_path n'))"
      by (intro write_all_files_other) (simp add: env)
    with new show ?thesis
      unfolding item step by (simp add: eq)
  qed
qed

lemma write_all_some_output:
  "fst (write_all items t fs) = Inr () \<Longrightarrow> p \<in> set (output_paths items) \<Longrightarrow>
    \<exists>n c. (n, c) \<in> set items \<and>
      files (snd (write_all items t fs)) (target fs p) =
        Some (write_newlines (os fs) (replace t marker (fill c)))"
proof (induction items arbitrary: fs p)
  case Nil
  then show ?case by (simp add: output_paths_def)
next
  case (Cons item items)
  obtain n' c' where item: "item = (n', c')" by (cases item)
  from Cons.prems(1) obtain fs1
    where step: "write_all ((n', c') # items) t fs = write_all items t fs1"
      and succ: "fst (write_all items t fs1) = Inr ()"
      and new: "files fs1 (target fs (output_path n')) =
        Some (write_newlines (os fs) (replace t marker (fill c')))"
      and env: "target fs1 = target fs" "os fs1 = os fs"
    unfolding item by (rule write_all_Cons_files)
  show ?case
  proof (cases "target fs p \<in> target fs ` set (output_paths items)")
    case True
    then obtain q where q: "q \<in> set (output_paths items)" "target fs q = target fs p"
      by auto
    from Cons.IH [OF succ q(1)] obtain n c where "(n, c) \<in> set items"
      and "files (snd (write_all items t fs1)) (target fs1 q) =
        Some (write_newlines (os fs1) (replace t marker (fill c)))"
      by blast
    then have "(n, c) \<in> set ((n', c') # items) \<and>
      files (snd (write_all items t fs1)) (target fs p) =
        Some (write_newlines (os fs) (replace t marker (fill c)))"
      by (simp add: env q(2))
    then show ?thesis
      unfolding item step by blast
  next
    case False
    with Cons.prems(2) have p: "p = output_path n'"
      by (auto simp: item output_paths_Cons)
    from False have "files (snd (write_all items t fs1)) (target fs p) = files fs1 (target fs p)"
      by (intro write_all_files_other) (simp add: env)
    with new have "(n', c') \<in> set ((n', c') # items) \<and>
      files (snd (write_all items t fs1)) (target fs p) =
        Some (write_newlines (os fs) (replace t marker (fill c')))"
      by (simp add: p)
    then show ?thesis
      unfolding item step by blast
  qed
qed



section \<open>Properties of a run\<close>

lemma read_text_Inr_iff:
  "read_text fs path = Inr t \<longleftrightarrow>
    (\<exists>stored. content fs path = Some stored \<and> readable fs path \<and> decodes fs stored \<and>
       t = universal_newlines stored)"
  by (auto simp: read_text_def content_def split: option.split)

lemma main_reads:
  "read_text fs template_path = Inr t \<Longrightarrow> main fs = write_all COLORS t fs"
  by (simp add: main_def)

lemma main_succeeds_reads:
  assumes "fst (main fs) = Inr ()"
  obtains stored where "content fs template_path = Some stored"
    and "read_text fs template_path = Inr (universal_newlines stored)"
proof -
  from assms obtain t where t: "read_text fs template_path = Inr t"
    by (cases "read_text fs template_path") (simp_all add: main_def)
  then obtain stored where "content fs template_path = Some stored"
    and "t = universal_newlines stored"
    by (auto simp: read_text_Inr_iff)
  with t show ?thesis
    by (intro that) simp_all
qed

lemma main_env:
  "os (snd (main fs)) = os fs \<and>
   target (snd (main fs)) = target fs \<and>
   readable (snd (main fs)) = readable fs \<and>
   decodes (snd (main fs)) = decodes fs \<and>
   writable (snd (main fs)) = writable fs \<and>
   write_fault (snd (main fs)) = write_fault fs"
  using write_all_env by (simp add: main_def split: sum.split)

lemma main_files_other:
  "k \<notin> target fs ` set (output_paths COLORS) \<Longrightarrow> files (snd (main fs)) k = files fs k"
  by (simp add: main_def write_all_files_other split: sum.split)

lemma main_written:
  assumes "read_text fs template_path = Inr t" and "fst (main fs) = Inr ()"
    and "distinct (map (target fs) (output_paths COLORS))" and "(n, c) \<in> set COLORS"
  shows "content (snd (main fs)) (output_path n) =
    Some (write_newlines (os fs) (replace t marker (fill c)))"
proof -
  from assms(1) have run: "main fs = write_all COLORS t fs"
    by (rule main_reads)
  with assms(2) have "fst (write_all COLORS t fs) = Inr ()"
    by simp
  then have "files (snd (write_all COLORS t fs)) (target fs (output_path n)) =
      Some (write_newlines (os fs) (replace t marker (fill c)))"
    using assms(3,4) by (rule write_all_written)
  then show ?thesis
    using main_env [of fs] by (simp add: content_def run)
qed

lemma main_some_output:
  assumes "read_text fs template_path = Inr t" and "fst (main fs) = Inr ()"
    and "p \<in> set (output_paths COLORS)"
  obtains n c where "(n, c) \<in> set COLORS"
    and "content (snd (main fs)) p = Some (write_newlines (os fs) (replace t marker (fill c)))"
proof -
  from assms(1) have run: "main fs = write_all COLORS t fs"
    by (rule main_reads)
  with assms(2) have "fst (write_all COLORS t fs) = Inr ()"
    by simp
  from write_all_some_output [OF this assms(3)] obtain n c where "(n, c) \<in> set COLORS"
    and "files (snd (write_all COLORS t fs)) (target fs p) =
        Some (write_newlines (os fs) (replace t marker (fill c)))"
    by blast
  then show ?thesis
    using main_env [of fs] by (intro that [of n c]) (simp_all add: content_def run)
qed

lemma later_paths_Cons:
  "later_paths ((n', c') # items) n = (if n' = n then output_paths items else later_paths items n)"
  by (simp add: later_paths_def)

lemma later_paths_subset: "set (later_paths items n) \<subseteq> set (output_paths items)"
  by (induction items) (auto simp: later_paths_Cons output_paths_Cons later_paths_def)

lemma write_all_written_last:
  "fst (write_all items t fs) = Inr () \<Longrightarrow> distinct (map fst items) \<Longrightarrow>
    (n, c) \<in> set items \<Longrightarrow>
    target fs (output_path n) \<notin> target fs ` set (later_paths items n) \<Longrightarrow>
    files (snd (write_all items t fs)) (target fs (output_path n)) =
      Some (write_newlines (os fs) (replace t marker (fill c)))"
proof (induction items arbitrary: fs)
  case Nil
  then show ?case by simp
next
  case (Cons item items)
  obtain n' c' where item: "item = (n', c')" by (cases item)
  from Cons.prems(1) obtain fs1
    where step: "write_all ((n', c') # items) t fs = write_all items t fs1"
      and succ: "fst (write_all items t fs1) = Inr ()"
      and new: "files fs1 (target fs (output_path n')) =
        Some (write_newlines (os fs) (replace t marker (fill c')))"
      and env: "target fs1 = target fs" "os fs1 = os fs"
    unfolding item by (rule write_all_Cons_files)
  from Cons.prems(2) have fresh: "n' \<notin> fst ` set items" and dist: "distinct (map fst items)"
    by (simp_all add: item)
  show ?case
  proof (cases "n' = n")
    case True
    with fresh Cons.prems(3) have c: "c' = c"
      by (force simp: item)
    from Cons.prems(4) True
    have "target fs (output_path n) \<notin> target fs ` set (output_paths items)"
      by (simp add: item later_paths_Cons)
    then have "files (snd (write_all items t fs1)) (target fs (output_path n)) =
        files fs1 (target fs (output_path n))"
      by (intro write_all_files_other) (simp add: env)
    with new True c show ?thesis
      unfolding item step by simp
  next
    case False
    with Cons.prems(3) have mem: "(n, c) \<in> set items"
      by (simp add: item)
    from Cons.prems(4) False
    have "target fs1 (output_path n) \<notin> target fs1 ` set (later_paths items n)"
      by (simp add: item later_paths_Cons env)
    from Cons.IH [OF succ dist mem this] show ?thesis
      unfolding item step by (simp add: env)
  qed
qed

lemma later_paths_distinct:
  assumes "distinct (map (target fs) (output_paths items))" and "(n, c) \<in> set items"
  shows "target fs (output_path n) \<notin> target fs ` set (later_paths items n)"
  using assms
proof (induction items)
  case Nil
  then show ?case by simp
next
  case (Cons item items)
  obtain n' c' where item: "item = (n', c')" by (cases item)
  from Cons.prems(1)
  have fresh: "target fs (output_path n') \<notin> target fs ` set (output_paths items)"
    and dist: "distinct (map (target fs) (output_paths items))"
    by (simp_all add: item output_paths_Cons)
  show ?case
  proof (cases "n' = n")
    case True
    with fresh show ?thesis
      by (simp add: item later_paths_Cons)
  next
    case False
    with Cons.prems(2) have "(n, c) \<in> set items"
      by (simp add: item)
    from Cons.IH [OF dist this] False show ?thesis
      by (simp add: item later_paths_Cons)
  qed
qed

lemma main_written_last:
  assumes "read_text fs template_path = Inr t" and "fst (main fs) = Inr ()"
    and "target fs (output_path n) \<notin> target fs ` set (later_paths COLORS n)"
    and "(n, c) \<in> set COLORS"
  shows "content (snd (main fs)) (output_path n) =
    Some (write_newlines (os fs) (replace t marker (fill c)))"
proof -
  from assms(1) have run: "main fs = write_all COLORS t fs"
    by (rule main_reads)
  with assms(2) have "fst (write_all COLORS t fs) = Inr ()"
    by simp
  then have "files (snd (write_all COLORS t fs)) (target fs (output_path n)) =
      Some (write_newlines (os fs) (replace t marker (fill c)))"
    using COLORS_names_distinct assms(4,3) by (rule write_all_written_last)
  then show ?thesis
    using main_env [of fs] by (simp add: content_def run)
qed

section \<open>Substitution and line ends\<close>

lemma write_newlines_append:
  "write_newlines pf (xs @ ys) = write_newlines pf xs @ write_newlines pf ys"
  by (simp add: write_newlines_def)

lemma write_newlines_no_LF: "LF \<notin> set s \<Longrightarrow> write_newlines pf s = s"
  by (induction s) (auto simp: write_newlines_Cons write_newlines_def)

lemma hd_linesep: "hd (linesep pf) = CR \<or> hd (linesep pf) = LF"
  by (cases pf) simp_all

lemma linesep_Cons: "\<exists>e es. linesep pf = e # es \<and> (e = CR \<or> e = LF)"
  by (cases pf) simp_all

lemma prefix_write_newlines:
  assumes "CR \<notin> set m" and "LF \<notin> set m"
  shows "prefix m (write_newlines pf u) \<longleftrightarrow> prefix m u"
  using assms
proof (induction m arbitrary: u)
  case Nil
  show ?case by simp
next
  case (Cons a m)
  then have a: "a \<noteq> CR" "a \<noteq> LF" and m: "CR \<notin> set m" "LF \<notin> set m"
    by auto
  show ?case
  proof (cases u)
    case Nil
    then show ?thesis by (simp add: write_newlines_def)
  next
    case (Cons c cs)
    show ?thesis
    proof (cases "c = LF")
      case True
      obtain e es where "linesep pf = e # es" "e = CR \<or> e = LF"
        using linesep_Cons by blast
      with a True show ?thesis
        by (auto simp: Cons write_newlines_Cons)
    next
      case False
      with Cons.IH [OF m, of cs] show ?thesis
        by (simp add: Cons write_newlines_Cons)
    qed
  qed
qed

lemma replace_scan_skip:
  assumes "old \<noteq> []" and "a \<notin> set old"
  shows "replace_scan old new (a # s) = a # replace_scan old new s"
proof -
  from assms have "\<not> prefix old (a # s)"
    by (cases old) auto
  then show ?thesis by simp
qed

lemma replace_scan_skip_linesep:
  assumes "old \<noteq> []" and "CR \<notin> set old" and "LF \<notin> set old"
  shows "replace_scan old new (linesep pf @ s) = linesep pf @ replace_scan old new s"
  using assms by (cases pf) (simp_all add: replace_scan_skip del: replace_scan.simps)

lemma replace_scan_write_newlines:
  assumes "old \<noteq> []" and "CR \<notin> set old" and "LF \<notin> set old" and "LF \<notin> set new"
  shows "replace_scan old new (write_newlines pf t) = write_newlines pf (replace_scan old new t)"
  using assms
proof (induction old new t rule: replace_scan.induct)
  case (1 old new)
  show ?case by (simp add: write_newlines_def)
next
  case (2 old new c cs)
  note old = "2.prems"(1,2,3)
  show ?case
  proof (cases "prefix old (c # cs)")
    case True
    let ?rest = "drop (length old - 1) cs"
    have t: "c # cs = old @ ?rest"
      by (rule prefix_Cons_split [OF old(1) True])
    have IH: "replace_scan old new (write_newlines pf ?rest) =
        write_newlines pf (replace_scan old new ?rest)"
      by (rule "2.IH"(1) [OF True "2.prems"])
    have "write_newlines pf (c # cs) = write_newlines pf (old @ ?rest)"
      by (simp only: t [symmetric])
    also have "\<dots> = old @ write_newlines pf ?rest"
      by (simp add: write_newlines_append write_newlines_no_LF old(3))
    finally have "replace_scan old new (write_newlines pf (c # cs)) =
        replace_scan old new (old @ write_newlines pf ?rest)"
      by simp
    also have "\<dots> = new @ replace_scan old new (write_newlines pf ?rest)"
      by (rule replace_scan_old_append [OF old(1)])
    also have "\<dots> = write_newlines pf new @ write_newlines pf (replace_scan old new ?rest)"
      by (simp only: IH write_newlines_no_LF [OF "2.prems"(4)])
    also have "\<dots> = write_newlines pf (new @ replace_scan old new ?rest)"
      by (simp add: write_newlines_append)
    also have "new @ replace_scan old new ?rest = replace_scan old new (c # cs)"
      using True by simp
    finally show ?thesis .
  next
    case False
    have IH: "replace_scan old new (write_newlines pf cs) =
        write_newlines pf (replace_scan old new cs)"
      by (rule "2.IH"(2) [OF False "2.prems"])
    from False have "write_newlines pf (replace_scan old new (c # cs)) =
        write_newlines pf [c] @ write_newlines pf (replace_scan old new cs)"
      by (simp add: write_newlines_Cons write_newlines_def)
    also have "\<dots> = write_newlines pf [c] @ replace_scan old new (write_newlines pf cs)"
      by (simp only: IH)
    also have "\<dots> = replace_scan old new (write_newlines pf [c] @ write_newlines pf cs)"
    proof (cases "c = LF")
      case True
      then have "write_newlines pf [c] = linesep pf"
        by (simp add: write_newlines_def)
      then show ?thesis
        by (simp only: replace_scan_skip_linesep [OF old])
    next
      case c: False
      then have one: "write_newlines pf [c] = [c]"
        by (simp add: write_newlines_def)
      have "write_newlines pf (c # cs) = c # write_newlines pf cs"
        using c by (simp add: write_newlines_Cons)
      with False prefix_write_newlines [OF old(2,3), of pf "c # cs"]
      have "\<not> prefix old (c # write_newlines pf cs)"
        by simp
      then show ?thesis
        by (simp add: one)
    qed
    also have "write_newlines pf [c] @ write_newlines pf cs = write_newlines pf (c # cs)"
      by (simp add: write_newlines_def)
    finally show ?thesis by (rule sym)
  qed
qed

lemma LF_not_in_marker: "LF \<notin> set marker"
  by (simp add: marker_def LF_def)

lemma LF_not_in_fill: "(n, c) \<in> set COLORS \<Longrightarrow> LF \<notin> set (fill c)"
  by (auto simp: COLORS_def fill_def LF_def)

lemma native_exact:
  assumes "(n, c) \<in> set COLORS"
    and "write_newlines pf (universal_newlines stored) = stored"
  shows "write_newlines pf (replace (universal_newlines stored) marker (fill c)) =
    replace stored marker (fill c)"
proof -
  have "replace_scan marker (fill c) (write_newlines pf (universal_newlines stored)) =
      write_newlines pf (replace_scan marker (fill c) (universal_newlines stored))"
    using marker_not_Nil CR_not_in_marker LF_not_in_marker LF_not_in_fill [OF assms(1)]
    by (rule replace_scan_write_newlines)
  with assms(2) show ?thesis
    by (simp add: replace_marker)
qed

lemma native_Posix:
  "write_newlines Posix (universal_newlines stored) = stored \<longleftrightarrow> CR \<notin> set stored"
  using universal_newlines_no_CR [of stored]
  by (auto simp: write_newlines_Posix universal_newlines_id)

section \<open>The claims\<close>

lemmas run_defs = main_def read_text_def write_text_def COLORS_def template_path_def
  output_path_def output_paths_def replace_def marker_def fill_def write_ok_def content_def
  write_newlines_def CR_def LF_def plain_dir_def

lemma example_fs_template:
  "read_text example_fs template_path = Inr ''<svg><rect fill:#cc4c4c; /></svg>''"
  by (simp add: run_defs example_fs_def template_only_def)

lemma example_fs_runs: "fst (main example_fs) = Inr ()"
  by (simp add: run_defs example_fs_def template_only_def)

lemma example_fs_plain: "distinct (map (target example_fs) (output_paths COLORS))"
  by (simp add: run_defs example_fs_def template_only_def)

lemma example_fs_native:
  "os example_fs = Posix \<and>
   content example_fs template_path = Some ''<svg><rect fill:#cc4c4c; /></svg>'' \<and>
   CR \<notin> set ''<svg><rect fill:#cc4c4c; /></svg>'' \<and>
   write_newlines (os example_fs) (universal_newlines ''<svg><rect fill:#cc4c4c; /></svg>'') =
     ''<svg><rect fill:#cc4c4c; /></svg>''"
  by (simp add: run_defs example_fs_def template_only_def)

lemma used_fs_runs: "fst (main used_fs) = Inr ()"
  by (simp add: run_defs used_fs_def)

lemma used_fs_plain: "distinct (map (target used_fs) (output_paths COLORS))"
  by (simp add: run_defs used_fs_def)

text \<open>
  C1 (as amended). After a successful run, for every entry \<open>(name, color)\<close> of the color
  table whose output path denotes a file that no output path opened later denotes, the
  file \<^verbatim>\<open>sockettype_<name>.svg\<close> exists and holds, with every line end written as the
  platform's line separator, the text of the template as text mode reads it (\<^verbatim>\<open>CR LF\<close>
  and \<^verbatim>\<open>CR\<close> read as \<^verbatim>\<open>LF\<close>) with the marker \<^verbatim>\<open>fill:#cc4c4c;\<close> replaced by
  \<^verbatim>\<open>fill:#<color>;\<close>: that text is a sequence of pieces free of the marker with the marker
  between them, and the output is the same pieces with \<^verbatim>\<open>fill:#<color>;\<close> between them,
  so every occurrence is replaced and the rest of the text is unchanged; unless the color
  is the marker's own \<^verbatim>\<open>cc4c4c\<close>, the marker does not occur in the output any more. Where
  the line ends of the template are the platform's own (reading and writing it back in
  text mode gives what it holds; with the line separator \<^verbatim>\<open>LF\<close>: it holds no \<^verbatim>\<open>CR\<close>), the
  content of the file is the content of the template with every occurrence of the marker
  replaced.
\<close>

theorem generated_file_content:
  assumes "fst (main fs) = Inr ()" and "(name, color) \<in> set COLORS"
    and "target fs (output_path name) \<notin> target fs ` set (later_paths COLORS name)"
  shows "\<exists>stored template_str pieces.
    content fs template_path = Some stored \<and>
    template_str = universal_newlines stored \<and>
    content (snd (main fs)) (output_path name) =
      Some (write_newlines (os fs) (replace template_str marker (fill color))) \<and>
    template_str = join marker pieces \<and>
    (\<forall>p \<in> set pieces. \<not> sublist marker p) \<and>
    replace template_str marker (fill color) = join (fill color) pieces \<and>
    (color \<noteq> ''cc4c4c'' \<longrightarrow>
       \<not> sublist marker (replace template_str marker (fill color))) \<and>
    (write_newlines (os fs) template_str = stored \<longrightarrow>
       content (snd (main fs)) (output_path name) = Some (replace stored marker (fill color))) \<and>
    (os fs = Posix \<and> CR \<notin> set stored \<longrightarrow>
       content (snd (main fs)) (output_path name) = Some (replace stored marker (fill color)))"
proof -
  from assms(1) obtain stored where stored: "content fs template_path = Some stored"
    and t: "read_text fs template_path = Inr (universal_newlines stored)"
    by (rule main_succeeds_reads)
  let ?t = "universal_newlines stored"
  have out: "content (snd (main fs)) (output_path name) =
      Some (write_newlines (os fs) (replace ?t marker (fill color)))"
    using t assms(1,3,2) by (rule main_written_last)
  note pieces = replace_marker_pieces [of ?t "fill color"]
  from pieces have joined: "?t = join marker (split marker ?t)"
    by simp
  from pieces have free: "\<forall>p \<in> set (split marker ?t). \<not> sublist marker p"
    by blast
  from pieces have replaced:
    "replace ?t marker (fill color) = join (fill color) (split marker ?t)"
    by blast
  have gone: "color \<noteq> ''cc4c4c'' \<longrightarrow> \<not> sublist marker (replace ?t marker (fill color))"
    using replace_fill_none_left [OF assms(2), of ?t] by blast
  have exact: "write_newlines (os fs) ?t = stored \<longrightarrow>
      content (snd (main fs)) (output_path name) = Some (replace stored marker (fill color))"
    using out native_exact [OF assms(2), of "os fs" stored] by simp
  then have posix: "os fs = Posix \<and> CR \<notin> set stored \<longrightarrow>
      content (snd (main fs)) (output_path name) = Some (replace stored marker (fill color))"
    using native_Posix [of stored] by auto
  from stored out joined free replaced gone exact posix show ?thesis
    by blast
qed

theorem generated_file_content_witness:
  "fst (main example_fs) = Inr () \<and> (''bool'', ''cca6d6'') \<in> set COLORS \<and>
   target example_fs (output_path ''bool'') \<notin>
     target example_fs ` set (later_paths COLORS ''bool'') \<and>
   content (snd (main example_fs)) ''sockettype_bool.svg'' =
     Some ''<svg><rect fill:#cca6d6; /></svg>'' \<and>
   (\<exists>stored template_str pieces.
    content example_fs template_path = Some stored \<and>
    template_str = universal_newlines stored \<and>
    content (snd (main example_fs)) (output_path ''bool'') =
      Some (write_newlines (os example_fs) (replace template_str marker (fill ''cca6d6''))) \<and>
    template_str = join marker pieces \<and>
    list_all (\<lambda>p. \<not> sublist marker p) pieces \<and>
    replace template_str marker (fill ''cca6d6'') = join (fill ''cca6d6'') pieces \<and>
    \<not> sublist marker (replace template_str marker (fill ''cca6d6'')))"
proof -
  have entry: "(''bool'', ''cca6d6'') \<in> set COLORS"
    by (simp add: COLORS_def)
  have out: "content (snd (main example_fs)) ''sockettype_bool.svg'' =
      Some ''<svg><rect fill:#cca6d6; /></svg>''"
    by (simp add: run_defs example_fs_def template_only_def)
  have color: "''cca6d6'' \<noteq> ''cc4c4c''"
    by simp
  have last: "target example_fs (output_path ''bool'') \<notin>
      target example_fs ` set (later_paths COLORS ''bool'')"
    using example_fs_plain entry by (rule later_paths_distinct)
  from generated_file_content [OF example_fs_runs entry last] color
  have "\<exists>stored template_str pieces.
    content example_fs template_path = Some stored \<and>
    template_str = universal_newlines stored \<and>
    content (snd (main example_fs)) (output_path ''bool'') =
      Some (write_newlines (os example_fs) (replace template_str marker (fill ''cca6d6''))) \<and>
    template_str = join marker pieces \<and>
    list_all (\<lambda>p. \<not> sublist marker p) pieces \<and>
    replace template_str marker (fill ''cca6d6'') = join (fill ''cca6d6'') pieces \<and>
    \<not> sublist marker (replace template_str marker (fill ''cca6d6''))"
    unfolding list_all_iff by blast
  with example_fs_runs entry last out show ?thesis
    by (intro conjI)
qed

text \<open>
  C1 as stated fails. A template whose lines end in \<^verbatim>\<open>CR LF\<close> is read with \<^verbatim>\<open>LF\<close> line
  ends and written so on a POSIX system, so the output differs from the template in more
  than the markers. And where two output paths are names of one file, the path of the
  entry written first shows what the later entry wrote.
\<close>

theorem generated_file_content_counterexample:
  "(''bool'', ''cca6d6'') \<in> set COLORS \<and>
   fst (main crlf_fs) = Inr () \<and>
   content crlf_fs template_path =
     Some (''<svg>'' @ [CR, LF] @ ''<rect fill:#cc4c4c; />'' @ [CR, LF] @ ''</svg>'') \<and>
   replace (''<svg>'' @ [CR, LF] @ ''<rect fill:#cc4c4c; />'' @ [CR, LF] @ ''</svg>'') marker
       (fill ''cca6d6'') =
     ''<svg>'' @ [CR, LF] @ ''<rect fill:#cca6d6; />'' @ [CR, LF] @ ''</svg>'' \<and>
   content (snd (main crlf_fs)) (output_path ''bool'') =
     Some (''<svg>'' @ [LF] @ ''<rect fill:#cca6d6; />'' @ [LF] @ ''</svg>'') \<and>
   ''<svg>'' @ [LF] @ ''<rect fill:#cca6d6; />'' @ [LF] @ ''</svg>'' \<noteq>
     ''<svg>'' @ [CR, LF] @ ''<rect fill:#cca6d6; />'' @ [CR, LF] @ ''</svg>'' \<and>
   (''array'', ''cc6600'') \<in> set COLORS \<and>
   fst (main hardlink_fs) = Inr () \<and>
   content hardlink_fs template_path = Some ''<svg><rect fill:#cc4c4c; /></svg>'' \<and>
   replace ''<svg><rect fill:#cc4c4c; /></svg>'' marker (fill ''cc6600'') =
     ''<svg><rect fill:#cc6600; /></svg>'' \<and>
   content (snd (main hardlink_fs)) (output_path ''array'') =
     Some ''<svg><rect fill:#cca6d6; /></svg>'' \<and>
   ''<svg><rect fill:#cca6d6; /></svg>'' \<noteq> ''<svg><rect fill:#cc6600; /></svg>''"
  by (simp add: run_defs crlf_fs_def crlf_template_def template_only_def hardlink_fs_def
      used_fs_def)

text \<open>
  C2 (as amended). In a directory whose output paths denote pairwise different files, a
  successful run opens exactly the output paths of the table entries for writing, one
  after the other, which are 11 different files, as many as the table has entries. Each
  output is the text of the template, as text mode reads it and with line ends written
  as the platform's line separator, with another color value in the slots of the marker:
  the text is a sequence of pieces free of \<^verbatim>\<open>fill:#cc4c4c;\<close> with \<^verbatim>\<open>fill:#cc4c4c;\<close> between
  them, the output the same pieces with \<^verbatim>\<open>fill:#<color>;\<close> between them. Where the line
  ends of the template are the platform's own (with the line separator \<^verbatim>\<open>LF\<close>: it holds
  no \<^verbatim>\<open>CR\<close>), the same holds of the stored template and the stored output, so that the
  output is identical to the template except for the color value.
\<close>

theorem output_count:
  assumes "fst (main fs) = Inr ()"
    and "distinct (map (target fs) (output_paths COLORS))"
  shows "opened_w (snd (main fs)) = opened_w fs @ output_paths COLORS \<and>
    distinct (output_paths COLORS) \<and>
    card (target fs ` set (output_paths COLORS)) = length COLORS \<and>
    length (output_paths COLORS) = length COLORS \<and>
    length COLORS = 11 \<and>
    (\<forall>(name, color) \<in> set COLORS. \<exists>stored pieces.
       content fs template_path = Some stored \<and>
       universal_newlines stored = join (''fill:#'' @ ''cc4c4c'' @ '';'') pieces \<and>
       (\<forall>p \<in> set pieces. \<not> sublist (''fill:#'' @ ''cc4c4c'' @ '';'') p) \<and>
       content (snd (main fs)) (output_path name) =
         Some (write_newlines (os fs) (join (''fill:#'' @ color @ '';'') pieces)) \<and>
       (write_newlines (os fs) (universal_newlines stored) = stored \<or>
        os fs = Posix \<and> CR \<notin> set stored \<longrightarrow>
          (\<exists>parts. stored = join (''fill:#'' @ ''cc4c4c'' @ '';'') parts \<and>
             (\<forall>p \<in> set parts. \<not> sublist (''fill:#'' @ ''cc4c4c'' @ '';'') p) \<and>
             content (snd (main fs)) (output_path name) =
               Some (join (''fill:#'' @ color @ '';'') parts))))"
proof -
  from assms(1) obtain stored where stored: "content fs template_path = Some stored"
    and t: "read_text fs template_path = Inr (universal_newlines stored)"
    by (rule main_succeeds_reads)
  let ?t = "universal_newlines stored"
  from t have run: "main fs = write_all COLORS ?t fs"
    by (rule main_reads)
  with assms(1) have succ: "fst (write_all COLORS ?t fs) = Inr ()"
    by simp
  have opened: "opened_w (snd (main fs)) = opened_w fs @ output_paths COLORS"
    unfolding run using succ by (rule write_all_opened)
  have len: "length (output_paths COLORS) = length COLORS"
    by (simp add: output_paths_def)
  have eleven: "length COLORS = 11"
    by (simp add: COLORS_def)
  have "card (target fs ` set (output_paths COLORS)) = length (output_paths COLORS)"
    using assms(2) distinct_card [of "map (target fs) (output_paths COLORS)"] by simp
  with len have files: "card (target fs ` set (output_paths COLORS)) = length COLORS"
    by simp
  have marker: "''fill:#'' @ ''cc4c4c'' @ '';'' = marker"
    by (simp add: marker_def)
  have each: "\<exists>stored pieces.
       content fs template_path = Some stored \<and>
       universal_newlines stored = join (''fill:#'' @ ''cc4c4c'' @ '';'') pieces \<and>
       (\<forall>p \<in> set pieces. \<not> sublist (''fill:#'' @ ''cc4c4c'' @ '';'') p) \<and>
       content (snd (main fs)) (output_path name) =
         Some (write_newlines (os fs) (join (''fill:#'' @ color @ '';'') pieces)) \<and>
       (write_newlines (os fs) (universal_newlines stored) = stored \<or>
        os fs = Posix \<and> CR \<notin> set stored \<longrightarrow>
          (\<exists>parts. stored = join (''fill:#'' @ ''cc4c4c'' @ '';'') parts \<and>
             (\<forall>p \<in> set parts. \<not> sublist (''fill:#'' @ ''cc4c4c'' @ '';'') p) \<and>
             content (snd (main fs)) (output_path name) =
               Some (join (''fill:#'' @ color @ '';'') parts)))"
    if entry: "(name, color) \<in> set COLORS" for name color
  proof -
    have fill: "''fill:#'' @ color @ '';'' = fill color"
      by (simp add: fill_def)
    have out: "content (snd (main fs)) (output_path name) =
        Some (write_newlines (os fs) (replace ?t marker (fill color)))"
      using t assms(1,2) entry by (rule main_written)
    note pieces = replace_marker_pieces [of ?t "fill color"]
    from pieces have joined: "?t = join marker (split marker ?t)"
      by simp
    from pieces have free: "\<forall>p \<in> set (split marker ?t). \<not> sublist marker p"
      by blast
    from pieces have replaced:
      "replace ?t marker (fill color) = join (fill color) (split marker ?t)"
      by blast
    from out replaced have out': "content (snd (main fs)) (output_path name) =
        Some (write_newlines (os fs) (join (fill color) (split marker ?t)))"
      by simp
    have exact: "\<exists>parts. stored = join marker parts \<and>
          (\<forall>p \<in> set parts. \<not> sublist marker p) \<and>
          content (snd (main fs)) (output_path name) = Some (join (fill color) parts)"
      if native: "write_newlines (os fs) ?t = stored \<or> os fs = Posix \<and> CR \<notin> set stored"
    proof -
      from native have "write_newlines (os fs) ?t = stored"
        using native_Posix [of stored] by auto
      with out have "content (snd (main fs)) (output_path name) =
          Some (replace stored marker (fill color))"
        using native_exact [OF entry, of "os fs" stored] by simp
      with replace_marker_pieces [of stored "fill color"]
      have "stored = join marker (split marker stored) \<and>
          (\<forall>p \<in> set (split marker stored). \<not> sublist marker p) \<and>
          content (snd (main fs)) (output_path name) =
            Some (join (fill color) (split marker stored))"
        by simp
      then show ?thesis by blast
    qed
    from stored joined free out' exact show ?thesis
      unfolding marker fill by blast
  qed
  from opened output_paths_distinct files len eleven each show ?thesis
    by blast
qed

theorem output_count_witness:
  "fst (main example_fs) = Inr () \<and>
   distinct (map (target example_fs) (output_paths COLORS)) \<and>
   opened_w (snd (main example_fs)) = opened_w example_fs @ output_paths COLORS \<and>
   distinct (output_paths COLORS) \<and>
   card (target example_fs ` set (output_paths COLORS)) = length COLORS \<and>
   length (output_paths COLORS) = length COLORS \<and>
   length COLORS = 11 \<and>
   (''bool'', ''cca6d6'') \<in> set COLORS \<and>
   (\<exists>stored pieces.
       content example_fs template_path = Some stored \<and>
       universal_newlines stored = join (''fill:#'' @ ''cc4c4c'' @ '';'') pieces \<and>
       list_all (\<lambda>p. \<not> sublist (''fill:#'' @ ''cc4c4c'' @ '';'') p) pieces \<and>
       content (snd (main example_fs)) (output_path ''bool'') =
         Some (write_newlines (os example_fs) (join (''fill:#'' @ ''cca6d6'' @ '';'') pieces)))"
proof -
  have entry: "(''bool'', ''cca6d6'') \<in> set COLORS"
    by (simp add: COLORS_def)
  note count = output_count [OF example_fs_runs example_fs_plain]
  from count entry
  have "\<exists>stored pieces.
       content example_fs template_path = Some stored \<and>
       universal_newlines stored = join (''fill:#'' @ ''cc4c4c'' @ '';'') pieces \<and>
       list_all (\<lambda>p. \<not> sublist (''fill:#'' @ ''cc4c4c'' @ '';'') p) pieces \<and>
       content (snd (main example_fs)) (output_path ''bool'') =
         Some (write_newlines (os example_fs) (join (''fill:#'' @ ''cca6d6'' @ '';'') pieces))"
    unfolding list_all_iff by blast
  with example_fs_runs example_fs_plain entry count show ?thesis
    by (intro conjI) blast+
qed

text \<open>
  C2 as stated fails: on a POSIX system the output for a template whose lines end in
  \<^verbatim>\<open>CR LF\<close> is shorter than the template, so it differs from it in more than the color
  value.
\<close>

theorem output_count_counterexample:
  "(''array'', ''cc6600'') \<in> set COLORS \<and>
   fst (main crlf_fs) = Inr () \<and>
   content crlf_fs template_path =
     Some (''<svg>'' @ [CR, LF] @ ''<rect fill:#cc4c4c; />'' @ [CR, LF] @ ''</svg>'') \<and>
   content (snd (main crlf_fs)) (output_path ''array'') =
     Some (''<svg>'' @ [LF] @ ''<rect fill:#cc6600; />'' @ [LF] @ ''</svg>'') \<and>
   length (''<svg>'' @ [LF] @ ''<rect fill:#cc6600; />'' @ [LF] @ ''</svg>'') \<noteq>
     length (''<svg>'' @ [CR, LF] @ ''<rect fill:#cc4c4c; />'' @ [CR, LF] @ ''</svg>'')"
  by (simp add: run_defs crlf_fs_def crlf_template_def template_only_def)

text \<open>
  C3 (as amended). For every entry of the table and every template text in which
  \<^verbatim>\<open>fill:#<color>;\<close> does not occur, or whose entry has the color \<^verbatim>\<open>cc4c4c\<close> of the marker,
  replacing \<^verbatim>\<open>fill:#<color>;\<close> in the entry's output by \<^verbatim>\<open>fill:#cc4c4c;\<close> gives the
  template text again. The output file of a successful run, if no output path opened
  later denotes the same file, holds such an output with its line ends written as the
  platform's line separator.
\<close>

theorem roundtrip_when_color_absent:
  assumes "(name, color) \<in> set COLORS"
    and "color = ''cc4c4c'' \<or> \<not> sublist (fill color) template_str"
  shows "replace (replace template_str marker (fill color)) (fill color) marker = template_str \<and>
    (read_text fs template_path = Inr template_str \<and> fst (main fs) = Inr () \<and>
     target fs (output_path name) \<notin> target fs ` set (later_paths COLORS name) \<longrightarrow>
      (\<exists>out. content (snd (main fs)) (output_path name) =
           Some (write_newlines (os fs) out) \<and>
        replace out (fill color) marker = template_str))"
proof -
  have again: "replace (replace template_str marker (fill color)) (fill color) marker =
      template_str"
    using assms by (rule replace_fill_roundtrip)
  have "\<exists>out. content (snd (main fs)) (output_path name) =
           Some (write_newlines (os fs) out) \<and>
        replace out (fill color) marker = template_str"
    if t: "read_text fs template_path = Inr template_str" and ok: "fst (main fs) = Inr ()"
      and last: "target fs (output_path name) \<notin> target fs ` set (later_paths COLORS name)"
  proof -
    have "content (snd (main fs)) (output_path name) =
        Some (write_newlines (os fs) (replace template_str marker (fill color)))"
      using t ok last assms(1) by (rule main_written_last)
    with again show ?thesis by blast
  qed
  with again show ?thesis by blast
qed

theorem roundtrip_when_color_absent_witness:
  "(''bool'', ''cca6d6'') \<in> set COLORS \<and>
   \<not> sublist (fill ''cca6d6'') ''<svg><rect fill:#cc4c4c; /></svg>'' \<and>
   replace (replace ''<svg><rect fill:#cc4c4c; /></svg>'' marker (fill ''cca6d6''))
     (fill ''cca6d6'') marker = ''<svg><rect fill:#cc4c4c; /></svg>'' \<and>
   read_text example_fs template_path = Inr ''<svg><rect fill:#cc4c4c; /></svg>'' \<and>
   fst (main example_fs) = Inr () \<and>
   target example_fs (output_path ''bool'') \<notin>
     target example_fs ` set (later_paths COLORS ''bool'') \<and>
   (\<exists>out. content (snd (main example_fs)) (output_path ''bool'') =
        Some (write_newlines (os example_fs) out) \<and>
      replace out (fill ''cca6d6'') marker = ''<svg><rect fill:#cc4c4c; /></svg>'')"
proof -
  have entry: "(''bool'', ''cca6d6'') \<in> set COLORS"
    by (simp add: COLORS_def)
  have no_color: "\<not> sublist (fill ''cca6d6'') ''<svg><rect fill:#cc4c4c; /></svg>''"
    by (simp add: fill_def sublist_code)
  then have absent: "''cca6d6'' = ''cc4c4c'' \<or>
      \<not> sublist (fill ''cca6d6'') ''<svg><rect fill:#cc4c4c; /></svg>''"
    by simp
  have last: "target example_fs (output_path ''bool'') \<notin>
      target example_fs ` set (later_paths COLORS ''bool'')"
    using example_fs_plain entry by (rule later_paths_distinct)
  from entry no_color example_fs_template example_fs_runs last
    roundtrip_when_color_absent [OF entry absent, of example_fs]
  show ?thesis by blast
qed

text \<open>
  C3 as stated fails: a template that already shows \<^verbatim>\<open>fill:#cccccc;\<close> somewhere keeps it in
  the output for \<^verbatim>\<open>animation\<close>, and replacing back turns that occurrence into the marker too.
\<close>

theorem roundtrip_counterexample:
  "(''animation'', ''cccccc'') \<in> set COLORS \<and>
   read_text two_color_fs template_path =
     Inr ''<svg><rect fill:#cc4c4c; /><circle fill:#cccccc; /></svg>'' \<and>
   fst (main two_color_fs) = Inr () \<and>
   content (snd (main two_color_fs)) (output_path ''animation'') =
     Some ''<svg><rect fill:#cccccc; /><circle fill:#cccccc; /></svg>'' \<and>
   replace ''<svg><rect fill:#cccccc; /><circle fill:#cccccc; /></svg>'' (fill ''cccccc'') marker =
     ''<svg><rect fill:#cc4c4c; /><circle fill:#cc4c4c; /></svg>'' \<and>
   replace (replace ''<svg><rect fill:#cc4c4c; /><circle fill:#cccccc; /></svg>'' marker
       (fill ''cccccc'')) (fill ''cccccc'') marker \<noteq>
     ''<svg><rect fill:#cc4c4c; /><circle fill:#cccccc; /></svg>''"
  by (simp add: run_defs two_color_fs_def template_only_def)



text \<open>
  C5 (as amended). If the marker does not occur in the text of the template, a run in
  which the template can be read and every output can be written still succeeds, and
  every output file holds the text of the template with its line ends written as the
  platform's line separator. Where the line ends of the template are the platform's own
  (with the line separator \<^verbatim>\<open>LF\<close>: it holds no \<^verbatim>\<open>CR\<close>), every output file's content is
  identical to the template.
\<close>

theorem no_marker_copies_template:
  assumes "read_text fs template_path = Inr template_str"
    and "\<not> sublist marker template_str"
    and "\<forall>path \<in> set (output_paths COLORS). write_ok fs path"
  shows "fst (main fs) = Inr () \<and>
    (\<forall>(name, color) \<in> set COLORS.
       content (snd (main fs)) (output_path name) =
         Some (write_newlines (os fs) template_str)) \<and>
    (\<forall>stored. content fs template_path = Some stored \<and>
       (write_newlines (os fs) (universal_newlines stored) = stored \<or>
        os fs = Posix \<and> CR \<notin> set stored) \<longrightarrow>
       (\<forall>(name, color) \<in> set COLORS.
          content (snd (main fs)) (output_path name) = Some stored))"
proof -
  from assms(1) have run: "main fs = write_all COLORS template_str fs"
    by (rule main_reads)
  from assms(3) have "fst (write_all COLORS template_str fs) = Inr ()"
    by (simp only: write_all_succeeds_iff)
  with run have succ: "fst (main fs) = Inr ()"
    by simp
  have copy: "content (snd (main fs)) (output_path name) =
      Some (write_newlines (os fs) template_str)"
    if "(name, color) \<in> set COLORS" for name color
  proof -
    from that have "output_path name \<in> set (output_paths COLORS)"
      by (auto simp: output_paths_mem)
    with assms(1) succ obtain n c where
      "content (snd (main fs)) (output_path name) =
        Some (write_newlines (os fs) (replace template_str marker (fill c)))"
      by (rule main_some_output)
    moreover have "replace template_str marker (fill c) = template_str"
      using assms(2) by (simp add: replace_marker replace_scan_absent)
    ultimately show ?thesis by simp
  qed
  have same: "content (snd (main fs)) (output_path name) = Some stored"
    if "content fs template_path = Some stored"
      "write_newlines (os fs) (universal_newlines stored) = stored \<or>
        os fs = Posix \<and> CR \<notin> set stored"
      "(name, color) \<in> set COLORS" for stored name color
  proof -
    from assms(1) that(1) have "template_str = universal_newlines stored"
      by (auto simp: read_text_Inr_iff)
    moreover from that(2) have "write_newlines (os fs) (universal_newlines stored) = stored"
      using native_Posix [of stored] by auto
    ultimately show ?thesis
      using copy [OF that(3)] by simp
  qed
  from succ copy same show ?thesis
    by blast
qed

theorem no_marker_copies_template_witness:
  "read_text plain_fs template_path = Inr ''<svg><rect /></svg>'' \<and>
   \<not> sublist marker ''<svg><rect /></svg>'' \<and>
   list_all (write_ok plain_fs) (output_paths COLORS) \<and>
   fst (main plain_fs) = Inr () \<and>
   (''vector'', ''6363c7'') \<in> set COLORS \<and>
   os plain_fs = Posix \<and>
   content plain_fs template_path = Some ''<svg><rect /></svg>'' \<and>
   CR \<notin> set ''<svg><rect /></svg>'' \<and>
   content (snd (main plain_fs)) (output_path ''vector'') =
     Some (write_newlines (os plain_fs) ''<svg><rect /></svg>'') \<and>
   content (snd (main plain_fs)) (output_path ''vector'') = Some ''<svg><rect /></svg>''"
proof -
  have rd: "read_text plain_fs template_path = Inr ''<svg><rect /></svg>''"
    by (simp add: run_defs plain_fs_def template_only_def)
  have free: "\<not> sublist marker ''<svg><rect /></svg>''"
    by (simp add: marker_def sublist_code)
  have ok: "\<forall>path \<in> set (output_paths COLORS). write_ok plain_fs path"
    by (simp add: write_ok_def plain_fs_def template_only_def plain_dir_def)
  have entry: "(''vector'', ''6363c7'') \<in> set COLORS"
    by (simp add: COLORS_def)
  have posix: "os plain_fs = Posix"
    and stored: "content plain_fs template_path = Some ''<svg><rect /></svg>''"
    and no_cr: "CR \<notin> set ''<svg><rect /></svg>''"
    by (simp_all add: plain_fs_def template_only_def plain_dir_def content_def
        template_path_def CR_def)
  from ok have all_ok: "list_all (write_ok plain_fs) (output_paths COLORS)"
    by (simp only: list_all_iff)
  note copies = no_marker_copies_template [OF rd free ok]
  from copies entry
  have "content (snd (main plain_fs)) (output_path ''vector'') =
      Some (write_newlines (os plain_fs) ''<svg><rect /></svg>'')"
    by blast
  moreover from copies entry posix stored no_cr
  have "content (snd (main plain_fs)) (output_path ''vector'') = Some ''<svg><rect /></svg>''"
    by blast
  moreover from copies have "fst (main plain_fs) = Inr ()"
    by blast
  ultimately show ?thesis
    using rd free all_ok entry posix stored no_cr by (intro conjI)
qed

text \<open>
  C5 as stated fails: a template without a marker whose lines end in \<^verbatim>\<open>CR LF\<close> is written
  with \<^verbatim>\<open>LF\<close> line ends on a POSIX system, so the outputs are not identical to it.
\<close>

theorem no_marker_copies_template_counterexample:
  "(''bool'', ''cca6d6'') \<in> set COLORS \<and>
   content crlf_plain_fs template_path = Some (''<svg>'' @ [CR, LF] @ ''</svg>'') \<and>
   \<not> sublist marker (''<svg>'' @ [CR, LF] @ ''</svg>'') \<and>
   fst (main crlf_plain_fs) = Inr () \<and>
   content (snd (main crlf_plain_fs)) (output_path ''bool'') =
     Some (''<svg>'' @ [LF] @ ''</svg>'') \<and>
   ''<svg>'' @ [LF] @ ''</svg>'' \<noteq> ''<svg>'' @ [CR, LF] @ ''</svg>''"
  by (simp add: run_defs crlf_plain_fs_def crlf_plain_template_def template_only_def
      sublist_code)

text \<open>
  C6. If the template file is missing or cannot be read, the run fails with the error of
  the read (the path is that of the template) and the directory is left exactly as it
  was: no file has been opened for writing, so no output file has been created.
\<close>

theorem template_unreadable_fails:
  assumes "content fs template_path = None \<or> \<not> readable fs template_path"
  shows "main fs =
      (Inl (if content fs template_path = None then FileNotFoundError template_path
            else PermissionError template_path), fs) \<and>
    files (snd (main fs)) = files fs \<and> opened_w (snd (main fs)) = opened_w fs"
  using assms by (auto simp: main_def read_text_def content_def split: option.split)

theorem template_unreadable_fails_witness:
  "content no_template_fs template_path = None \<and>
   main no_template_fs = (Inl (FileNotFoundError template_path), no_template_fs) \<and>
   files (snd (main no_template_fs)) = files no_template_fs \<and>
   opened_w (snd (main no_template_fs)) = opened_w no_template_fs \<and>
   content (snd (main no_template_fs)) (output_path ''action'') = None"
proof -
  have missing: "content no_template_fs template_path = None"
    by (simp add: no_template_fs_def plain_dir_def content_def template_path_def)
  then have h: "content no_template_fs template_path = None \<or>
      \<not> readable no_template_fs template_path"
    by simp
  have "content no_template_fs (output_path ''action'') = None"
    by (simp add: no_template_fs_def plain_dir_def content_def output_path_def)
  with h missing template_unreadable_fails [OF h] show ?thesis
    by simp
qed



text \<open>
  C8 (as amended). Whatever the outcome of a run, every file that no output path of the
  table denotes is left as it was, and so are the links and the permissions. The output
  paths are \<^verbatim>\<open>sockettype_<name>.svg\<close> for the names of the table, pairwise different, and
  the template's path is none of them; so in a directory without links a run modifies
  nothing but the files of these names, and never the template. A successful run opens
  each output path for writing exactly once, in the order of the table, and where the
  output paths denote pairwise different files it leaves in each the substituted
  template, whatever the file held before.
\<close>

theorem run_frame:
  "(\<forall>file. file \<notin> target fs ` set (output_paths COLORS) \<longrightarrow>
      files (snd (main fs)) file = files fs file) \<and>
   (\<forall>path. target fs path \<notin> target fs ` set (output_paths COLORS) \<longrightarrow>
      content (snd (main fs)) path = content fs path) \<and>
   template_path \<notin> set (output_paths COLORS) \<and>
   ((\<forall>path. target fs path = path) \<longrightarrow>
      (\<forall>path. path \<notin> set (output_paths COLORS) \<longrightarrow>
         content (snd (main fs)) path = content fs path) \<and>
      content (snd (main fs)) template_path = content fs template_path) \<and>
   os (snd (main fs)) = os fs \<and>
   target (snd (main fs)) = target fs \<and>
   readable (snd (main fs)) = readable fs \<and>
   decodes (snd (main fs)) = decodes fs \<and>
   writable (snd (main fs)) = writable fs \<and>
   write_fault (snd (main fs)) = write_fault fs \<and>
   output_paths COLORS = map (\<lambda>(name, color). ''sockettype_'' @ name @ ''.svg'') COLORS \<and>
   distinct (output_paths COLORS) \<and>
   (fst (main fs) = Inr () \<longrightarrow>
      opened_w (snd (main fs)) = opened_w fs @ output_paths COLORS \<and>
      (distinct (map (target fs) (output_paths COLORS)) \<longrightarrow>
        (\<forall>(name, color) \<in> set COLORS. \<forall>template_str.
           read_text fs template_path = Inr template_str \<longrightarrow>
           content (snd (main fs)) (output_path name) =
             Some (write_newlines (os fs) (replace template_str marker (fill color))))))"
proof -
  note env = main_env [of fs]
  have other: "\<forall>file. file \<notin> target fs ` set (output_paths COLORS) \<longrightarrow>
      files (snd (main fs)) file = files fs file"
    by (simp add: main_files_other)
  have denoted: "\<forall>path. target fs path \<notin> target fs ` set (output_paths COLORS) \<longrightarrow>
      content (snd (main fs)) path = content fs path"
    using env by (simp add: content_def main_files_other)
  have no_links: "(\<forall>path. path \<notin> set (output_paths COLORS) \<longrightarrow>
         content (snd (main fs)) path = content fs path) \<and>
      content (snd (main fs)) template_path = content fs template_path"
    if plain: "\<forall>path. target fs path = path"
  proof -
    from plain have "target fs ` set (output_paths COLORS) = set (output_paths COLORS)"
      by simp
    with denoted plain
    have "\<forall>path. path \<notin> set (output_paths COLORS) \<longrightarrow>
        content (snd (main fs)) path = content fs path"
      by simp
    with template_not_output show ?thesis
      by blast
  qed
  have names: "output_paths COLORS =
      map (\<lambda>(name, color). ''sockettype_'' @ name @ ''.svg'') COLORS"
    by (simp add: output_paths_def output_path_def)
  have success: "opened_w (snd (main fs)) = opened_w fs @ output_paths COLORS \<and>
      (distinct (map (target fs) (output_paths COLORS)) \<longrightarrow>
        (\<forall>(name, color) \<in> set COLORS. \<forall>template_str.
           read_text fs template_path = Inr template_str \<longrightarrow>
           content (snd (main fs)) (output_path name) =
             Some (write_newlines (os fs) (replace template_str marker (fill color)))))"
    if ok: "fst (main fs) = Inr ()"
  proof -
    from ok obtain stored where t: "read_text fs template_path = Inr (universal_newlines stored)"
      by (rule main_succeeds_reads)
    then have run: "main fs = write_all COLORS (universal_newlines stored) fs"
      by (rule main_reads)
    with ok have succ: "fst (write_all COLORS (universal_newlines stored) fs) = Inr ()"
      by simp
    have "opened_w (snd (main fs)) = opened_w fs @ output_paths COLORS"
      unfolding run using succ by (rule write_all_opened)
    moreover have "content (snd (main fs)) (output_path name) =
        Some (write_newlines (os fs) (replace template_str marker (fill color)))"
      if "distinct (map (target fs) (output_paths COLORS))" "(name, color) \<in> set COLORS"
        "read_text fs template_path = Inr template_str"
      for name color template_str
      using that(3) ok that(1,2) by (rule main_written)
    ultimately show ?thesis by blast
  qed
  from other denoted template_not_output no_links env names output_paths_distinct success
  show ?thesis
    by blast
qed

theorem run_frame_witness:
  "fst (main used_fs) = Inr () \<and>
   read_text used_fs template_path = Inr ''<svg><rect fill:#cc4c4c; /></svg>'' \<and>
   (''bool'', ''cca6d6'') \<in> set COLORS \<and>
   ''notes.txt'' \<notin> set (output_paths COLORS) \<and>
   target used_fs = (\<lambda>path. path) \<and>
   distinct (map (target used_fs) (output_paths COLORS)) \<and>
   content used_fs ''notes.txt'' = Some ''keep'' \<and>
   content (snd (main used_fs)) ''notes.txt'' = Some ''keep'' \<and>
   content (snd (main used_fs)) template_path = content used_fs template_path \<and>
   content used_fs (output_path ''bool'') = Some ''old bool'' \<and>
   content (snd (main used_fs)) (output_path ''bool'') =
     Some (write_newlines (os used_fs)
       (replace ''<svg><rect fill:#cc4c4c; /></svg>'' marker (fill ''cca6d6''))) \<and>
   opened_w (snd (main used_fs)) = opened_w used_fs @ output_paths COLORS \<and>
   content (snd (main full_fs)) ''notes.txt'' = content full_fs ''notes.txt''"
proof -
  have rd: "read_text used_fs template_path = Inr ''<svg><rect fill:#cc4c4c; /></svg>''"
    by (simp add: run_defs used_fs_def)
  have entry: "(''bool'', ''cca6d6'') \<in> set COLORS"
    by (simp add: COLORS_def)
  have other_file: "''notes.txt'' \<notin> set (output_paths COLORS)"
    by (simp add: output_paths_def output_path_def COLORS_def)
  have links: "target used_fs = (\<lambda>path. path)" and links': "target full_fs = (\<lambda>path. path)"
    by (simp_all add: used_fs_def full_fs_def plain_dir_def)
  have before: "content used_fs ''notes.txt'' = Some ''keep'' \<and>
      content used_fs (output_path ''bool'') = Some ''old bool''"
    by (simp add: used_fs_def plain_dir_def content_def output_path_def)
  note frame = run_frame [of used_fs]
  from frame links
  have rest: "\<forall>path. path \<notin> set (output_paths COLORS) \<longrightarrow>
      content (snd (main used_fs)) path = content used_fs path"
    and template: "content (snd (main used_fs)) template_path = content used_fs template_path"
    by simp_all
  from rest other_file before
  have kept: "content (snd (main used_fs)) ''notes.txt'' = Some ''keep''"
    by simp
  from frame used_fs_runs used_fs_plain
  have opened: "opened_w (snd (main used_fs)) = opened_w used_fs @ output_paths COLORS"
    and written: "\<forall>(name, color) \<in> set COLORS. \<forall>template_str.
           read_text used_fs template_path = Inr template_str \<longrightarrow>
           content (snd (main used_fs)) (output_path name) =
             Some (write_newlines (os used_fs) (replace template_str marker (fill color)))"
    by blast+
  from written entry rd
  have new: "content (snd (main used_fs)) (output_path ''bool'') =
     Some (write_newlines (os used_fs)
       (replace ''<svg><rect fill:#cc4c4c; /></svg>'' marker (fill ''cca6d6'')))"
    by blast
  from run_frame [of full_fs] links'
  have "\<forall>path. path \<notin> set (output_paths COLORS) \<longrightarrow>
      content (snd (main full_fs)) path = content full_fs path"
    by simp
  with other_file
  have full: "content (snd (main full_fs)) ''notes.txt'' = content full_fs ''notes.txt''"
    by blast
  from used_fs_runs rd entry other_file links used_fs_plain before kept template new opened full
  show ?thesis by (intro conjI) blast+
qed

text \<open>
  C8 as stated fails: where \<^verbatim>\<open>sockettype_color.svg\<close> is a link to \<^verbatim>\<open>notes.txt\<close> and
  \<^verbatim>\<open>sockettype_vector.svg\<close> a link to the template, the run writes through the links and
  changes both files, neither of which has the name of an output.
\<close>

theorem run_frame_counterexample:
  "''notes.txt'' \<notin> set (output_paths COLORS) \<and>
   template_path \<notin> set (output_paths COLORS) \<and>
   fst (main symlink_fs) = Inr () \<and>
   content symlink_fs ''notes.txt'' = Some ''keep'' \<and>
   content (snd (main symlink_fs)) ''notes.txt'' = Some ''<svg><rect fill:#c7c729; /></svg>'' \<and>
   ''<svg><rect fill:#c7c729; /></svg>'' \<noteq> ''keep'' \<and>
   content symlink_fs template_path = Some ''<svg><rect fill:#cc4c4c; /></svg>'' \<and>
   content (snd (main symlink_fs)) template_path = Some ''<svg><rect fill:#6363c7; /></svg>'' \<and>
   ''<svg><rect fill:#6363c7; /></svg>'' \<noteq> ''<svg><rect fill:#cc4c4c; /></svg>''"
  by (simp add: run_defs symlink_fs_def used_fs_def)

text \<open>
  C9. For every entry of the table the replacement \<^verbatim>\<open>fill:#<color>;\<close> is as long as the
  marker, so for every template the substituted text is as long as the template text, and
  so is the text of the output file of a successful run; where the line separator is
  \<^verbatim>\<open>LF\<close> the stored output has that length too.
\<close>

theorem output_length:
  assumes "(name, color) \<in> set COLORS"
  shows "length (fill color) = length marker \<and>
    length (replace template_str marker (fill color)) = length template_str \<and>
    (read_text fs template_path = Inr template_str \<and> fst (main fs) = Inr () \<longrightarrow>
       map_option (\<lambda>stored. length (universal_newlines stored))
           (content (snd (main fs)) (output_path name)) =
         Some (length template_str) \<and>
       (os fs = Posix \<longrightarrow>
          map_option length (content (snd (main fs)) (output_path name)) =
            Some (length template_str)))"
proof -
  have "length (fill color) = length marker"
    using assms by (simp add: length_fill length_marker COLORS_color_length)
  moreover have "length (replace template_str marker (fill color)) = length template_str"
    using assms by (rule length_replace_fill)
  moreover have "map_option (\<lambda>stored. length (universal_newlines stored))
           (content (snd (main fs)) (output_path name)) =
         Some (length template_str) \<and>
       (os fs = Posix \<longrightarrow>
          map_option length (content (snd (main fs)) (output_path name)) =
            Some (length template_str))"
    if t: "read_text fs template_path = Inr template_str" and ok: "fst (main fs) = Inr ()"
  proof -
    from assms have "output_path name \<in> set (output_paths COLORS)"
      by (auto simp: output_paths_mem)
    with t ok obtain n c where nc: "(n, c) \<in> set COLORS"
      and out: "content (snd (main fs)) (output_path name) =
        Some (write_newlines (os fs) (replace template_str marker (fill c)))"
      by (rule main_some_output)
    from t obtain stored where "template_str = universal_newlines stored"
      by (auto simp: read_text_Inr_iff)
    then have "universal_newlines
        (write_newlines (os fs) (replace template_str marker (fill c))) =
        replace template_str marker (fill c)"
      using read_back_output [OF nc] by simp
    moreover have "length (replace template_str marker (fill c)) = length template_str"
      using nc by (rule length_replace_fill)
    ultimately show ?thesis
      using out by (simp add: write_newlines_Posix)
  qed
  ultimately show ?thesis by blast
qed

theorem output_length_witness:
  "(''string'', ''70b2ff'') \<in> set COLORS \<and>
   length (fill ''70b2ff'') = length marker \<and>
   length (replace ''<svg><rect fill:#cc4c4c; /></svg>'' marker (fill ''70b2ff'')) =
     length ''<svg><rect fill:#cc4c4c; /></svg>'' \<and>
   read_text example_fs template_path = Inr ''<svg><rect fill:#cc4c4c; /></svg>'' \<and>
   fst (main example_fs) = Inr () \<and>
   os example_fs = Posix \<and>
   map_option (\<lambda>stored. length (universal_newlines stored))
       (content (snd (main example_fs)) (output_path ''string'')) =
     Some (length ''<svg><rect fill:#cc4c4c; /></svg>'') \<and>
   map_option length (content (snd (main example_fs)) (output_path ''string'')) =
     Some (length ''<svg><rect fill:#cc4c4c; /></svg>'')"
proof -
  have entry: "(''string'', ''70b2ff'') \<in> set COLORS"
    by (simp add: COLORS_def)
  have posix: "os example_fs = Posix"
    by (simp add: example_fs_def template_only_def plain_dir_def)
  from entry example_fs_template example_fs_runs posix
    output_length [OF entry, of "''<svg><rect fill:#cc4c4c; /></svg>''" example_fs]
  show ?thesis by blast
qed

text \<open>
  C10 (as amended). The color of the entry \<^verbatim>\<open>action\<close> is the color of the marker, so for
  that entry the replacement is the marker itself and the substitution leaves every
  template text as it is. After a successful run, if no output path opened later denotes
  the same file, the output file for \<^verbatim>\<open>action\<close> holds the text of the template with its
  line ends written as the platform's line separator; where the line ends of the
  template are the platform's own (with the line separator \<^verbatim>\<open>LF\<close>: it holds no \<^verbatim>\<open>CR\<close>),
  it is identical to the template.
\<close>

theorem action_output_is_template:
  assumes "(''action'', color) \<in> set COLORS"
  shows "color = ''cc4c4c'' \<and> fill color = marker \<and>
    replace template_str marker (fill color) = template_str \<and>
    (read_text fs template_path = Inr template_str \<and> fst (main fs) = Inr () \<and>
     target fs (output_path ''action'') \<notin>
       target fs ` set (later_paths COLORS ''action'') \<longrightarrow>
       content (snd (main fs)) (output_path ''action'') =
         Some (write_newlines (os fs) template_str) \<and>
       (\<forall>stored. content fs template_path = Some stored \<and>
          (write_newlines (os fs) (universal_newlines stored) = stored \<or>
           os fs = Posix \<and> CR \<notin> set stored) \<longrightarrow>
          content (snd (main fs)) (output_path ''action'') = Some stored))"
proof -
  from assms have color: "color = ''cc4c4c''"
    by (auto simp: COLORS_def)
  then have same: "fill color = marker"
    by (simp add: marker_fill)
  then have id: "replace template_str marker (fill color) = template_str"
    by (simp add: replace_same)
  have "content (snd (main fs)) (output_path ''action'') =
         Some (write_newlines (os fs) template_str) \<and>
       (\<forall>stored. content fs template_path = Some stored \<and>
          (write_newlines (os fs) (universal_newlines stored) = stored \<or>
           os fs = Posix \<and> CR \<notin> set stored) \<longrightarrow>
          content (snd (main fs)) (output_path ''action'') = Some stored)"
    if t: "read_text fs template_path = Inr template_str" and ok: "fst (main fs) = Inr ()"
      and last: "target fs (output_path ''action'') \<notin>
        target fs ` set (later_paths COLORS ''action'')"
  proof -
    have "content (snd (main fs)) (output_path ''action'') =
        Some (write_newlines (os fs) (replace template_str marker (fill color)))"
      using t ok last assms by (rule main_written_last)
    with id have out: "content (snd (main fs)) (output_path ''action'') =
        Some (write_newlines (os fs) template_str)"
      by simp
    have "content (snd (main fs)) (output_path ''action'') = Some stored"
      if "content fs template_path = Some stored"
        "write_newlines (os fs) (universal_newlines stored) = stored \<or>
           os fs = Posix \<and> CR \<notin> set stored"
      for stored
    proof -
      from t that(1) have "template_str = universal_newlines stored"
        by (auto simp: read_text_Inr_iff)
      moreover from that(2) have "write_newlines (os fs) (universal_newlines stored) = stored"
        using native_Posix [of stored] by auto
      ultimately show ?thesis
        using out by simp
    qed
    with out show ?thesis by blast
  qed
  with color same id show ?thesis by blast
qed

theorem action_output_is_template_witness:
  "(''action'', ''cc4c4c'') \<in> set COLORS \<and>
   fill ''cc4c4c'' = marker \<and>
   replace ''<svg><rect fill:#cc4c4c; /></svg>'' marker (fill ''cc4c4c'') =
     ''<svg><rect fill:#cc4c4c; /></svg>'' \<and>
   read_text example_fs template_path = Inr ''<svg><rect fill:#cc4c4c; /></svg>'' \<and>
   fst (main example_fs) = Inr () \<and>
   target example_fs (output_path ''action'') \<notin>
     target example_fs ` set (later_paths COLORS ''action'') \<and>
   os example_fs = Posix \<and>
   content example_fs template_path = Some ''<svg><rect fill:#cc4c4c; /></svg>'' \<and>
   CR \<notin> set ''<svg><rect fill:#cc4c4c; /></svg>'' \<and>
   content (snd (main example_fs)) (output_path ''action'') =
     Some ''<svg><rect fill:#cc4c4c; /></svg>''"
proof -
  have entry: "(''action'', ''cc4c4c'') \<in> set COLORS"
    by (simp add: COLORS_def)
  have last: "target example_fs (output_path ''action'') \<notin>
      target example_fs ` set (later_paths COLORS ''action'')"
    using example_fs_plain entry by (rule later_paths_distinct)
  from example_fs_native
  have posix: "os example_fs = Posix"
    and stored: "content example_fs template_path = Some ''<svg><rect fill:#cc4c4c; /></svg>''"
    and no_cr: "CR \<notin> set ''<svg><rect fill:#cc4c4c; /></svg>''"
    by simp_all
  from entry example_fs_template example_fs_runs last posix stored no_cr
    action_output_is_template [OF entry, of "''<svg><rect fill:#cc4c4c; /></svg>''" example_fs]
  show ?thesis by blast
qed

text \<open>
  C10 as stated fails: on a POSIX system the output for \<^verbatim>\<open>action\<close> of a template whose
  lines end in \<^verbatim>\<open>CR LF\<close> has \<^verbatim>\<open>LF\<close> line ends and is not identical to the template.
\<close>

theorem action_output_is_template_counterexample:
  "(''action'', ''cc4c4c'') \<in> set COLORS \<and>
   fst (main crlf_fs) = Inr () \<and>
   content crlf_fs template_path =
     Some (''<svg>'' @ [CR, LF] @ ''<rect fill:#cc4c4c; />'' @ [CR, LF] @ ''</svg>'') \<and>
   content (snd (main crlf_fs)) (output_path ''action'') =
     Some (''<svg>'' @ [LF] @ ''<rect fill:#cc4c4c; />'' @ [LF] @ ''</svg>'') \<and>
   ''<svg>'' @ [LF] @ ''<rect fill:#cc4c4c; />'' @ [LF] @ ''</svg>'' \<noteq>
     ''<svg>'' @ [CR, LF] @ ''<rect fill:#cc4c4c; />'' @ [CR, LF] @ ''</svg>''"
  by (simp add: run_defs crlf_fs_def crlf_template_def template_only_def)

end
